theory Spec2Isabelle
  imports Main
begin

section \<open>Flint changeset application: the embedding\<close>

text \<open>
  A shallow embedding of \<^verbatim>\<open>backends/flint/flint_databasereplicator.cc\<close>: the three
  member functions \<^verbatim>\<open>process_changeset_chunk_base\<close>, \<^verbatim>\<open>process_changeset_chunk_blocks\<close>
  and \<^verbatim>\<open>apply_changeset_from_conn\<close> of \<^verbatim>\<open>FlintDatabaseReplicator\<close>.

  A \<^verbatim>\<open>std::string\<close> is a \<open>string\<close> (a list of bytes). Every function takes the state of
  the world (the files of the database directory, the connection, the behaviour of the
  medium) and returns the new one together with either the exception thrown (\<open>Inl\<close>) or
  the value returned (\<open>Inr\<close>); the world is returned on failure too, so that what a
  failed call leaves on disk can be stated.
\<close>

subsection \<open>Errors\<close>

type_synonym path = string

text \<open>
  The value of \<^verbatim>\<open>errno\<close>. Only \<^verbatim>\<open>ENOENT\<close> is inspected by the code; every other code is
  \<open>EOTHER n\<close>.
\<close>

datatype errno = ENOENT | EOTHER nat

text \<open>
  The exception classes thrown: \<^verbatim>\<open>Xapian::NetworkError(msg)\<close>,
  \<^verbatim>\<open>Xapian::NetworkTimeoutError\<close> (raised by the connection),
  \<^verbatim>\<open>Xapian::DatabaseError(msg, errno)\<close> and \<^verbatim>\<open>Xapian::DatabaseLockError\<close>.
\<close>

datatype error =
    NetworkError string
  | NetworkTimeoutError
  | DatabaseError string errno
  | DatabaseLockError string

subsection \<open>The world\<close>

text \<open>
  What the medium does to one system call: nothing special (\<open>NoFault\<close>); the call fails and
  has no effect (\<open>Fail n\<close>, reported as \<open>EOTHER n\<close>); or the call takes effect but a failure
  is reported to the caller (\<open>Lost n\<close>): the case the comment at the \<^verbatim>\<open>rename()\<close> call
  describes for NFS, where the server crashes after renaming and before replying.
  \<^verbatim>\<open>ENOENT\<close> is never injected: it is decided by the file table, as no other process
  changes the directory while the lock is held.
\<close>

datatype fault = NoFault | Fail nat | Lost nat

text \<open>
  What the connection delivers on one read of the socket: some bytes of the message, or
  nothing before the deadline.
\<close>

datatype packet = Data string | Timeout

text \<open>
  \<^item> \<open>files\<close>: the file system, a map from path to content;
  \<^item> \<open>faults\<close>: for each path, what the medium does to the successive system calls on it
    (an exhausted list means no fault);
  \<^item> \<open>conn\<close>: the reads still to come from the \<^verbatim>\<open>RemoteConnection\<close>, up to the end of the
    chunked message;
  \<^item> \<open>lock_failure\<close>: the explanation \<^verbatim>\<open>FlintLock::lock\<close> gives when the directory lock
    cannot be taken, \<open>None\<close> when it can.
\<close>

record world =
  files :: "path \<rightharpoonup> string"
  faults :: "path \<Rightarrow> fault list"
  conn :: "packet list"
  lock_failure :: "string option"

type_synonym 'a outcome = "(error + 'a) \<times> world"

text \<open>The object: \<^verbatim>\<open>db_dir\<close> and \<^verbatim>\<open>max_changesets\<close> (from \<^verbatim>\<open>XAPIAN_MAX_CHANGESETS\<close>).\<close>

record replicator =
  db_dir :: string
  max_changesets :: int

text \<open>
  Modelled from the spec: the constants and the byte codec, which the repository declares
  in \<^verbatim>\<open>flint_replicate_internal.h\<close> and \<^verbatim>\<open>flint_utils.h\<close>, not under src/. The spec treats
  the codec as an opaque primitive pair, so it is a parameter here:
  \<^item> \<open>unpack_uint s\<close> decodes a variable-length unsigned integer at the front of \<open>s\<close> and
    gives the value and the number of bytes it occupies, or \<open>None\<close>;
  \<^item> \<open>pack_uint n\<close> encodes \<open>n\<close>.
\<close>

record ext =
  CHANGES_MAGIC_STRING :: string
  CHANGES_VERSION :: nat
  REASONABLE_CHANGESET_SIZE :: nat
  unpack_uint :: "string \<Rightarrow> (nat \<times> nat) option"
  pack_uint :: "nat \<Rightarrow> string"

subsection \<open>System calls\<close>

definition next_fault :: "path \<Rightarrow> world \<Rightarrow> fault \<times> world" where
  "next_fault p w =
     (case faults w p of
        [] \<Rightarrow> (NoFault, w)
      | f # fs \<Rightarrow> (f, w\<lparr>faults := (faults w)(p := fs)\<rparr>))"

text \<open>
  A system call on path \<open>p\<close> with effect \<open>eff\<close>: the result is \<open>None\<close> for success and
  \<open>Some e\<close> for failure with \<^verbatim>\<open>errno\<close> \<open>e\<close>.
\<close>

definition syscall ::
  "path \<Rightarrow> (world \<Rightarrow> errno option \<times> world) \<Rightarrow> world \<Rightarrow> errno option \<times> world" where
  "syscall p eff w =
     (case next_fault p w of
        (NoFault, w1) \<Rightarrow> eff w1
      | (Fail n, w1) \<Rightarrow> (Some (EOTHER n), w1)
      | (Lost n, w1) \<Rightarrow> (Some (EOTHER n), snd (eff w1)))"

definition content :: "world \<Rightarrow> path \<Rightarrow> string" where
  "content w p = (case files w p of None \<Rightarrow> [] | Some c \<Rightarrow> c)"

text \<open>\<^verbatim>\<open>open(p, O_WRONLY | O_CREAT | O_TRUNC | O_BINARY, 0666)\<close>\<close>

definition open_creat_trunc :: "path \<Rightarrow> world \<Rightarrow> errno option \<times> world" where
  "open_creat_trunc p = syscall p (\<lambda>w. (None, w\<lparr>files := (files w)(p \<mapsto> [])\<rparr>))"

text \<open>\<^verbatim>\<open>open(p, O_WRONLY | O_BINARY, 0666)\<close>\<close>

definition open_wronly :: "path \<Rightarrow> world \<Rightarrow> errno option \<times> world" where
  "open_wronly p = syscall p (\<lambda>w. (if files w p = None then Some ENOENT else None, w))"

text \<open>
  A file descriptor is modelled by the path it was opened on. \<open>write_fd\<close> is a write at
  the descriptor's offset for a descriptor that only ever appends (opened with
  \<^verbatim>\<open>O_TRUNC\<close> and never repositioned): the bytes go to the end of the file.
\<close>

definition write_fd :: "path \<Rightarrow> string \<Rightarrow> world \<Rightarrow> errno option \<times> world" where
  "write_fd p d = syscall p (\<lambda>w. (None, w\<lparr>files := (files w)(p \<mapsto> content w p @ d)\<rparr>))"

text \<open>
  Writing \<open>d\<close> at byte offset \<open>off\<close> of a file with content \<open>c\<close>: a write beyond the end
  extends the file, the gap reading as zero bytes.
\<close>

definition pwrite :: "string \<Rightarrow> nat \<Rightarrow> string \<Rightarrow> string" where
  "pwrite c off d =
     take off (c @ replicate (off - length c) (CHR 0x00)) @ d @ drop (off + length d) c"

definition write_at :: "path \<Rightarrow> nat \<Rightarrow> string \<Rightarrow> world \<Rightarrow> errno option \<times> world" where
  "write_at p off d =
     syscall p (\<lambda>w. (None, w\<lparr>files := (files w)(p \<mapsto> pwrite (content w p) off d)\<rparr>))"

definition fsync :: "path \<Rightarrow> world \<Rightarrow> errno option \<times> world" where
  "fsync p = syscall p (\<lambda>w. (None, w))"

definition rename :: "path \<Rightarrow> path \<Rightarrow> world \<Rightarrow> errno option \<times> world" where
  "rename old new =
     syscall old (\<lambda>w. case files w old of
        None \<Rightarrow> (Some ENOENT, w)
      | Some c \<Rightarrow> (None, w\<lparr>files := (files w)(old := None, new \<mapsto> c)\<rparr>))"

definition unlink :: "path \<Rightarrow> world \<Rightarrow> errno option \<times> world" where
  "unlink p =
     syscall p (\<lambda>w. case files w p of
        None \<Rightarrow> (Some ENOENT, w)
      | Some c \<Rightarrow> (None, w\<lparr>files := (files w)(p := None)\<rparr>))"

definition file_exists :: "path \<Rightarrow> world \<Rightarrow> bool" where
  "file_exists p w = (files w p \<noteq> None)"

text \<open>
  \<^verbatim>\<open>lseek(fd, off, SEEK_SET)\<close> with \<open>off\<close> of type \<^verbatim>\<open>off_t\<close> (64 bits, signed): it fails when
  the product computed by the caller does not fit, the offset then being negative.
\<close>

definition lseek_ok :: "nat \<Rightarrow> bool" where
  "lseek_ok off = (off < 2 ^ 63)"

subsection \<open>Helpers of the repository that are not under src/\<close>

text \<open>
  Modelled from the spec: \<^verbatim>\<open>io_write\<close> and \<^verbatim>\<open>io_sync\<close> (\<^verbatim>\<open>io_utils.h\<close>), the durable
  write-all and sync primitives; a failure is a \<open>DatabaseError\<close> with the system error code.
\<close>

definition io_write :: "path \<Rightarrow> string \<Rightarrow> world \<Rightarrow> unit outcome" where
  "io_write fd d w =
     (case write_fd fd d w of
        (None, w') \<Rightarrow> (Inr (), w')
      | (Some e, w') \<Rightarrow> (Inl (DatabaseError ''Error writing to file'' e), w'))"

definition io_write_at :: "path \<Rightarrow> nat \<Rightarrow> string \<Rightarrow> world \<Rightarrow> unit outcome" where
  "io_write_at fd off d w =
     (case write_at fd off d w of
        (None, w') \<Rightarrow> (Inr (), w')
      | (Some e, w') \<Rightarrow> (Inl (DatabaseError ''Error writing to file'' e), w'))"

definition io_sync :: "path \<Rightarrow> world \<Rightarrow> unit outcome" where
  "io_sync fd w =
     (case fsync fd w of
        (None, w') \<Rightarrow> (Inr (), w')
      | (Some e, w') \<Rightarrow> (Inl (DatabaseError ''Error syncing file'' e), w'))"

text \<open>
  Modelled from the spec: \<^verbatim>\<open>RemoteConnection::get_message_chunk(buf, at_least, end_time)\<close>,
  the transport's \<open>read_chunk(buffer, min_bytes, deadline) -> filled | timeout\<close>. It appends
  what the socket delivers to \<open>buf\<close> until \<open>buf\<close> holds \<open>at_least\<close> bytes or the message is
  exhausted (the code checks \<^verbatim>\<open>buf.size()\<close> afterwards), and throws on a timeout.
\<close>

fun read_chunk :: "string \<Rightarrow> nat \<Rightarrow> packet list \<Rightarrow> (error + string) \<times> packet list" where
  "read_chunk buf at_least [] = (Inr buf, [])"
| "read_chunk buf at_least (Timeout # ps) =
     (if at_least \<le> length buf then (Inr buf, Timeout # ps) else (Inl NetworkTimeoutError, ps))"
| "read_chunk buf at_least (Data d # ps) =
     (if at_least \<le> length buf then (Inr buf, Data d # ps)
      else read_chunk (buf @ d) at_least ps)"

definition get_message_chunk :: "string \<Rightarrow> nat \<Rightarrow> world \<Rightarrow> string outcome" where
  "get_message_chunk buf at_least w =
     (case read_chunk buf at_least (conn w) of (r, c) \<Rightarrow> (r, w\<lparr>conn := c\<rparr>))"

text \<open>
  Modelled from the spec: \<^verbatim>\<open>write_and_clear_changes(changes_fd, buf, bytes)\<close>
  (\<^verbatim>\<open>replicate_utils.h\<close>), the archive-and-discard of a consumed prefix: the first
  \<open>bytes\<close> bytes of \<open>buf\<close> are appended to the archival file when there is one
  (\<open>changes_fd\<close> is \<open>None\<close> for the descriptor \<open>-1\<close>) and removed from \<open>buf\<close>.
\<close>

definition write_and_clear_changes ::
  "path option \<Rightarrow> string \<Rightarrow> nat \<Rightarrow> world \<Rightarrow> string outcome" where
  "write_and_clear_changes changes_fd buf bytes w =
     (case changes_fd of
        None \<Rightarrow> (Inr (drop bytes buf), w)
      | Some fd \<Rightarrow>
          (case io_write fd (take bytes buf) w of
             (Inl e, w') \<Rightarrow> (Inl e, w')
           | (Inr u, w') \<Rightarrow> (Inr (drop bytes buf), w')))"

text \<open>
  Modelled from the spec: \<^verbatim>\<open>create_changeset_file(dir, filename, changes_name)\<close>
  (\<^verbatim>\<open>replicate_utils.h\<close>): creates the archival file \<open>dir/filename\<close> and returns its
  descriptor.
\<close>

definition create_changeset_file :: "string \<Rightarrow> string \<Rightarrow> world \<Rightarrow> path outcome" where
  "create_changeset_file changeset_dir filename w =
     (let changes_name = changeset_dir @ ''/'' @ filename in
      case open_creat_trunc changes_name w of
        (Some e, w') \<Rightarrow>
          (Inl (DatabaseError (''Couldn't open changeset '' @ changes_name @ '' to write'') e), w')
      | (None, w') \<Rightarrow> (Inr changes_name, w'))"

text \<open>
  \<^verbatim>\<open>F_unpack_uint(&ptr, end, &result)\<close> for a result type of \<open>bits\<close> bits: the value
  and the rest of the buffer after it (\<^verbatim>\<open>ptr\<close> to \<^verbatim>\<open>end\<close>), or \<open>None\<close> for \<^verbatim>\<open>false\<close>.
  An encoded integer occupies at least one byte and lies within the buffer; a value that
  does not fit the result type is an overflow, which the decoder reports as \<^verbatim>\<open>false\<close>.
\<close>

definition F_unpack_uint :: "ext \<Rightarrow> nat \<Rightarrow> string \<Rightarrow> (nat \<times> string) option" where
  "F_unpack_uint x bits s =
     (case unpack_uint x s of
        None \<Rightarrow> None
      | Some (v, n) \<Rightarrow>
          if 0 < n \<and> n \<le> length s \<and> v < 2 ^ bits then Some (v, drop n s) else None)"

text \<open>
  Modelled from the spec: \<^verbatim>\<open>F_unpack_string\<close>, the length-prefixed string decoder: a
  length, then that many bytes.
\<close>

definition F_unpack_string :: "ext \<Rightarrow> string \<Rightarrow> (string \<times> string) option" where
  "F_unpack_string x s =
     (case F_unpack_uint x 64 s of
        None \<Rightarrow> None
      | Some (len, rest) \<Rightarrow>
          if length rest < len then None else Some (take len rest, drop len rest))"

text \<open>\<^verbatim>\<open>str(n)\<close> (\<^verbatim>\<open>str.h\<close>): the decimal representation of an integer.\<close>

definition digit :: "nat \<Rightarrow> char" where
  "digit n = ''0123456789'' ! n"

fun str :: "nat \<Rightarrow> string" where
  "str n = (if n < 10 then [digit n] else str (n div 10) @ [digit (n mod 10)])"

declare str.simps [simp del]

subsection \<open>The Base-File Applier\<close>

text \<open>
  \<^verbatim>\<open>process_changeset_chunk_base(tablename, buf, conn, end_time, changes_fd)\<close>. The
  function returns nothing and updates \<open>buf\<close> in place, so the model returns the new
  \<open>buf\<close>. \<^verbatim>\<open>ptr[0]\<close> on an empty buffer reads the terminating NUL of the string, which
  is not a valid letter. \<^verbatim>\<open>string::size_type\<close> has 64 bits.
\<close>

definition process_changeset_chunk_base ::
  "ext \<Rightarrow> replicator \<Rightarrow> string \<Rightarrow> string \<Rightarrow> path option \<Rightarrow> world \<Rightarrow> string outcome" where
  "process_changeset_chunk_base x r tablename buf changes_fd w =
     (case buf of
        [] \<Rightarrow> (Inl (NetworkError ''Invalid base file letter in changeset''), w)
      | letter # ptr \<Rightarrow>
        if letter \<noteq> CHR ''A'' \<and> letter \<noteq> CHR ''B''
        then (Inl (NetworkError ''Invalid base file letter in changeset''), w)
        else if ptr = [] then (Inl (NetworkError ''Unexpected end of changeset (5)''), w)
        else
          (case F_unpack_uint x 64 ptr of
             None \<Rightarrow> (Inl (NetworkError ''Invalid base file size in changeset''), w)
           | Some (base_size, ptr') \<Rightarrow>
             (case write_and_clear_changes changes_fd buf (length buf - length ptr') w of
                (Inl e, w1) \<Rightarrow> (Inl e, w1)
              | (Inr buf1, w1) \<Rightarrow>
                (case get_message_chunk buf1 base_size w1 of
                   (Inl e, w2) \<Rightarrow> (Inl e, w2)
                 | (Inr buf2, w2) \<Rightarrow>
                   if length buf2 < base_size
                   then (Inl (NetworkError ''Unexpected end of changeset (6)''), w2)
                   else
                     let tmp_path = db_dir r @ ''/'' @ tablename @ ''tmp'';
                         base_path = db_dir r @ ''/'' @ tablename @ ''.base'' @ [letter]
                     in
                     (case open_creat_trunc tmp_path w2 of
                        (Some e, w3) \<Rightarrow> (Inl (DatabaseError (''Failed to open '' @ tmp_path) e), w3)
                      | (None, w3) \<Rightarrow>
                        (case io_write tmp_path (take base_size buf2) w3 of
                           (Inl e, w4) \<Rightarrow> (Inl e, w4)
                         | (Inr u, w4) \<Rightarrow>
                           (case io_sync tmp_path w4 of
                              (Inl e, w5) \<Rightarrow> (Inl e, w5)
                            | (Inr u, w5) \<Rightarrow>
                              (case write_and_clear_changes changes_fd buf2 base_size w5 of
                                 (Inl e, w6) \<Rightarrow> (Inl e, w6)
                               | (Inr buf3, w6) \<Rightarrow>
                                 (case rename tmp_path base_path w6 of
                                    (None, w7) \<Rightarrow> (Inr buf3, w7)
                                  | (Some saved_errno, w7) \<Rightarrow>
                                    (case unlink tmp_path w7 of
                                       (None, w8) \<Rightarrow>
                                         (Inl (DatabaseError (''Couldn't update base file '' @ tablename @ ''.base'' @ [letter]) saved_errno), w8)
                                     | (Some e, w8) \<Rightarrow>
                                         if e \<noteq> ENOENT
                                         then (Inl (DatabaseError (''Couldn't update base file '' @ tablename @ ''.base'' @ [letter]) saved_errno), w8)
                                         else (Inr buf3, w8)))))))))))"


subsection \<open>Progress of the stream\<close>

text \<open>The bytes the connection has still to deliver.\<close>

fun pending :: "packet list \<Rightarrow> string" where
  "pending [] = []"
| "pending (Timeout # ps) = pending ps"
| "pending (Data d # ps) = d @ pending ps"

definition avail :: "string \<Rightarrow> world \<Rightarrow> nat" where
  "avail buf w = length buf + length (pending (conn w))"

lemma read_chunk_pending:
  "read_chunk buf n ps = (Inr b, ps') \<Longrightarrow> b @ pending ps' = buf @ pending ps"
  by (induction buf n ps rule: read_chunk.induct) (auto split: if_splits)

lemma read_chunk_enough:
  "read_chunk buf n ps = (Inr b, ps') \<Longrightarrow> length b < n \<Longrightarrow> ps' = []"
  by (induction buf n ps rule: read_chunk.induct) (auto split: if_splits)

lemma get_message_chunk_pending:
  "get_message_chunk buf n w = (Inr b, w') \<Longrightarrow> b @ pending (conn w') = buf @ pending (conn w)"
  by (auto simp: get_message_chunk_def split: prod.splits dest: read_chunk_pending)

lemma get_message_chunk_avail:
  "get_message_chunk buf n w = (Inr b, w') \<Longrightarrow> avail b w' = avail buf w"
  by (drule get_message_chunk_pending, drule arg_cong [where f = length]) (simp add: avail_def)

lemma conn_next_fault: "conn (snd (next_fault p w)) = conn w"
  by (simp add: next_fault_def split: list.splits)

lemma conn_syscall:
  "(\<And>v. conn (snd (eff v)) = conn v) \<Longrightarrow> conn (snd (syscall p eff w)) = conn w"
  using conn_next_fault [of p w]
  by (auto simp: syscall_def split: prod.splits fault.splits)

lemma conn_open_creat_trunc: "conn (snd (open_creat_trunc p w)) = conn w"
  unfolding open_creat_trunc_def by (rule conn_syscall) simp

lemma conn_open_wronly: "conn (snd (open_wronly p w)) = conn w"
  unfolding open_wronly_def by (rule conn_syscall) simp

lemma conn_write_fd: "conn (snd (write_fd p d w)) = conn w"
  unfolding write_fd_def by (rule conn_syscall) simp

lemma conn_write_at: "conn (snd (write_at p off d w)) = conn w"
  unfolding write_at_def by (rule conn_syscall) simp

lemma conn_fsync: "conn (snd (fsync p w)) = conn w"
  unfolding fsync_def by (rule conn_syscall) simp

lemma conn_rename: "conn (snd (rename p q w)) = conn w"
  unfolding rename_def by (rule conn_syscall) (simp split: option.splits)

lemma conn_unlink: "conn (snd (unlink p w)) = conn w"
  unfolding unlink_def by (rule conn_syscall) (simp split: option.splits)

lemma conn_io_write: "conn (snd (io_write p d w)) = conn w"
  using conn_write_fd [of p d w] by (cases "write_fd p d w") (auto simp: io_write_def split: option.splits)

lemma conn_io_write_at: "conn (snd (io_write_at p off d w)) = conn w"
  using conn_write_at [of p off d w]
  by (cases "write_at p off d w") (auto simp: io_write_at_def split: option.splits)

lemma conn_io_sync: "conn (snd (io_sync p w)) = conn w"
  using conn_fsync [of p w] by (cases "fsync p w") (auto simp: io_sync_def split: option.splits)

lemma conn_create_changeset_file: "conn (snd (create_changeset_file d f w)) = conn w"
  using conn_open_creat_trunc [of "d @ ''/'' @ f" w]
  by (cases "open_creat_trunc (d @ ''/'' @ f) w")
     (auto simp: create_changeset_file_def Let_def split: option.splits)

lemma write_and_clear_changes_Inr:
  "write_and_clear_changes fd buf n w = (Inr b, w') \<Longrightarrow> b = drop n buf \<and> conn w' = conn w"
  using conn_io_write [of "the fd" "take n buf" w]
  by (cases "io_write (the fd) (take n buf) w")
     (auto simp: write_and_clear_changes_def split: option.splits sum.splits)

lemma conn_write_and_clear_changes:
  "conn (snd (write_and_clear_changes fd buf n w)) = conn w"
  using conn_io_write [of "the fd" "take n buf" w]
  by (cases "io_write (the fd) (take n buf) w")
     (auto simp: write_and_clear_changes_def split: option.splits sum.splits)

lemma F_unpack_uint_Some:
  "F_unpack_uint x bits s = Some (v, rest) \<Longrightarrow>
     length rest < length s \<and> v < 2 ^ bits \<and> (\<exists>n. 0 < n \<and> n \<le> length s \<and> rest = drop n s)"
  by (auto simp: F_unpack_uint_def split: option.splits if_splits)

lemma F_unpack_string_Some:
  "F_unpack_string x s = Some (t, rest) \<Longrightarrow> length rest < length s"
  by (auto simp: F_unpack_string_def split: option.splits if_splits dest!: F_unpack_uint_Some)


subsection \<open>The Block Applier\<close>

text \<open>
  One pass through the body of a \<^verbatim>\<open>while (true)\<close> loop either leaves the loop
  (\<^verbatim>\<open>break\<close>) or goes round again with the buffer as it is then; an exception is the
  \<open>Inl\<close> of the outcome.
\<close>

datatype 'a pass = Break 'a | Again string

text \<open>
  The body of the loop of \<^verbatim>\<open>process_changeset_chunk_blocks\<close>. \<^verbatim>\<open>uint4\<close> and
  \<^verbatim>\<open>unsigned int\<close> have 32 bits. The seek and the write that follows it are one write at
  the offset \<^verbatim>\<open>off_t(changeset_blocksize) * block_number\<close>.
\<close>

definition blocks_body ::
  "ext \<Rightarrow> path \<Rightarrow> path option \<Rightarrow> nat \<Rightarrow> string \<Rightarrow> world \<Rightarrow> string pass outcome" where
  "blocks_body x fd changes_fd changeset_blocksize buf w =
     (case get_message_chunk buf (REASONABLE_CHANGESET_SIZE x) w of
        (Inl e, w1) \<Rightarrow> (Inl e, w1)
      | (Inr buf1, w1) \<Rightarrow>
        (case F_unpack_uint x 32 buf1 of
           None \<Rightarrow> (Inl (NetworkError ''Invalid block number in changeset''), w1)
         | Some (tag, ptr) \<Rightarrow>
           (case write_and_clear_changes changes_fd buf1 (length buf1 - length ptr) w1 of
              (Inl e, w2) \<Rightarrow> (Inl e, w2)
            | (Inr buf2, w2) \<Rightarrow>
              if tag = 0 then (Inr (Break buf2), w2)
              else
                let block_number = tag - 1 in
                (case get_message_chunk buf2 changeset_blocksize w2 of
                   (Inl e, w3) \<Rightarrow> (Inl e, w3)
                 | (Inr buf3, w3) \<Rightarrow>
                   if length buf3 < changeset_blocksize
                   then (Inl (NetworkError ''Incomplete block in changeset''), w3)
                   else if \<not> lseek_ok (changeset_blocksize * block_number)
                   then (Inl (DatabaseError (''Failed to seek to block '' @ str block_number)
                                (EOTHER 22)), w3)
                   else
                     (case io_write_at fd (changeset_blocksize * block_number)
                             (take changeset_blocksize buf3) w3 of
                        (Inl e, w4) \<Rightarrow> (Inl e, w4)
                      | (Inr u, w4) \<Rightarrow>
                        (case write_and_clear_changes changes_fd buf3 changeset_blocksize w4 of
                           (Inl e, w5) \<Rightarrow> (Inl e, w5)
                         | (Inr buf5, w5) \<Rightarrow> (Inr (Again buf5), w5)))))))"

lemma open_creat_trunc_conn: "open_creat_trunc p w = (r, w') \<Longrightarrow> conn w' = conn w"
  using conn_open_creat_trunc [of p w] by simp

lemma open_wronly_conn: "open_wronly p w = (r, w') \<Longrightarrow> conn w' = conn w"
  using conn_open_wronly [of p w] by simp

lemma rename_conn: "rename p q w = (r, w') \<Longrightarrow> conn w' = conn w"
  using conn_rename [of p q w] by simp

lemma unlink_conn: "unlink p w = (r, w') \<Longrightarrow> conn w' = conn w"
  using conn_unlink [of p w] by simp

lemma io_write_conn: "io_write p d w = (r, w') \<Longrightarrow> conn w' = conn w"
  using conn_io_write [of p d w] by simp

lemma io_write_at_conn: "io_write_at p off d w = (r, w') \<Longrightarrow> conn w' = conn w"
  using conn_io_write_at [of p off d w] by simp

lemma io_sync_conn: "io_sync p w = (r, w') \<Longrightarrow> conn w' = conn w"
  using conn_io_sync [of p w] by simp

lemma write_and_clear_changes_avail:
  "write_and_clear_changes fd buf n w = (Inr b, w') \<Longrightarrow> avail b w' \<le> avail buf w"
  by (drule write_and_clear_changes_Inr) (simp add: avail_def)

lemma blocks_body_Again:
  assumes "blocks_body x fd cfd bs buf w = (Inr (Again b), w')"
  shows "avail b w' < avail buf w"
  using assms unfolding blocks_body_def Let_def
  by (auto split: if_splits option.splits prod.splits sum.splits
      dest!: write_and_clear_changes_Inr get_message_chunk_avail io_write_at_conn
        F_unpack_uint_Some simp: avail_def)

lemma blocks_body_Break:
  assumes "blocks_body x fd cfd bs buf w = (Inr (Break b), w')"
  shows "avail b w' < avail buf w"
  using assms unfolding blocks_body_def Let_def
  by (auto split: if_splits option.splits prod.splits sum.splits
      dest!: write_and_clear_changes_Inr get_message_chunk_avail io_write_at_conn
        F_unpack_uint_Some simp: avail_def)

function blocks_loop ::
  "ext \<Rightarrow> path \<Rightarrow> path option \<Rightarrow> nat \<Rightarrow> string \<Rightarrow> world \<Rightarrow> string outcome" where
  "blocks_loop x fd changes_fd changeset_blocksize buf w =
     (case blocks_body x fd changes_fd changeset_blocksize buf w of
        (Inl e, w') \<Rightarrow> (Inl e, w')
      | (Inr (Break buf'), w') \<Rightarrow> (Inr buf', w')
      | (Inr (Again buf'), w') \<Rightarrow> blocks_loop x fd changes_fd changeset_blocksize buf' w')"
  by pat_completeness auto

termination
  by (relation "measure (\<lambda>(x, fd, changes_fd, bs, buf, w). avail buf w)")
     (auto dest: blocks_body_Again [OF sym])

declare blocks_loop.simps [simp del]

lemma blocks_loop_avail:
  "blocks_loop x fd cfd bs buf w = (Inr b, w') \<Longrightarrow> avail b w' < avail buf w"
proof (induction x fd cfd bs buf w rule: blocks_loop.induct)
  case (1 x fd cfd bs buf w)
  show ?case
  proof (cases "blocks_body x fd cfd bs buf w")
    case (Pair res w1)
    show ?thesis
    proof (cases res)
      case (Inl e)
      with Pair "1.prems" show ?thesis
        by (simp add: blocks_loop.simps)
    next
      case (Inr ps)
      show ?thesis
      proof (cases ps)
        case (Break b1)
        with Pair Inr "1.prems" have "b = b1" "w' = w1"
          by (simp_all add: blocks_loop.simps)
        with Pair Inr Break show ?thesis
          by (auto dest: blocks_body_Break)
      next
        case (Again b1)
        with Pair Inr "1.prems" have "blocks_loop x fd cfd bs b1 w1 = (Inr b, w')"
          by (simp add: blocks_loop.simps)
        with "1.IH" [OF Pair [symmetric] Inr Again] have "avail b w' < avail b1 w1"
          by simp
        moreover from Pair Inr Again have "avail b1 w1 < avail buf w"
          by (auto dest: blocks_body_Again)
        ultimately show ?thesis by simp
      qed
    qed
  qed
qed

text \<open>
  The opening of the table's data file in \<^verbatim>\<open>process_changeset_chunk_blocks\<close> (lines 178
  to 200): for writing, and created when it does not exist.
\<close>

definition open_db_file :: "path \<Rightarrow> world \<Rightarrow> unit outcome" where
  "open_db_file db_path w =
     (case open_wronly db_path w of
        (None, w') \<Rightarrow> (Inr (), w')
      | (Some e, w') \<Rightarrow>
          if file_exists db_path w'
          then (Inl (DatabaseError (''Failed to open '' @ db_path) e), w')
          else (case open_creat_trunc db_path w' of
                  (None, w'') \<Rightarrow> (Inr (), w'')
                | (Some e', w'') \<Rightarrow>
                    (Inl (DatabaseError (''Failed to create and open '' @ db_path) e'), w'')))"

text \<open>\<^verbatim>\<open>process_changeset_chunk_blocks(tablename, buf, conn, end_time, changes_fd)\<close>\<close>

definition process_changeset_chunk_blocks ::
  "ext \<Rightarrow> replicator \<Rightarrow> string \<Rightarrow> string \<Rightarrow> path option \<Rightarrow> world \<Rightarrow> string outcome" where
  "process_changeset_chunk_blocks x r tablename buf changes_fd w =
     (case F_unpack_uint x 32 buf of
        None \<Rightarrow> (Inl (NetworkError ''Invalid blocksize in changeset''), w)
      | Some (changeset_blocksize, ptr) \<Rightarrow>
        (case write_and_clear_changes changes_fd buf (length buf - length ptr) w of
           (Inl e, w1) \<Rightarrow> (Inl e, w1)
         | (Inr buf1, w1) \<Rightarrow>
           let db_path = db_dir r @ ''/'' @ tablename @ ''.DB'' in
           (case open_db_file db_path w1 of
              (Inl e, w3) \<Rightarrow> (Inl e, w3)
            | (Inr u, w3) \<Rightarrow>
              (case blocks_loop x db_path changes_fd changeset_blocksize buf1 w3 of
                 (Inl e, w4) \<Rightarrow> (Inl e, w4)
               | (Inr buf4, w4) \<Rightarrow>
                 (case io_sync db_path w4 of
                    (Inl e, w5) \<Rightarrow> (Inl e, w5)
                  | (Inr u', w5) \<Rightarrow> (Inr buf4, w5))))))"

lemma open_db_file_conn: "open_db_file p w = (res, w') \<Longrightarrow> conn w' = conn w"
  by (auto simp: open_db_file_def split: prod.split_asm option.split_asm if_split_asm
      dest!: open_wronly_conn open_creat_trunc_conn)

lemma process_changeset_chunk_base_avail:
  assumes "process_changeset_chunk_base x r t buf fd w = (Inr b, w')"
  shows "avail b w' \<le> avail buf w"
  using assms unfolding process_changeset_chunk_base_def Let_def
  by (auto split: list.splits if_splits option.splits prod.splits sum.splits
      dest!: write_and_clear_changes_avail get_message_chunk_avail open_creat_trunc_conn
        io_write_conn io_sync_conn rename_conn unlink_conn simp: avail_def)

lemma process_changeset_chunk_blocks_avail:
  assumes "process_changeset_chunk_blocks x r t buf fd w = (Inr b, w')"
  shows "avail b w' \<le> avail buf w"
  using assms unfolding process_changeset_chunk_blocks_def Let_def
  by (auto split: if_splits option.splits prod.splits sum.splits
      dest!: write_and_clear_changes_avail blocks_loop_avail open_db_file_conn io_sync_conn
      simp: avail_def)

subsection \<open>The Changeset Driver\<close>

text \<open>
  The body of the loop of \<^verbatim>\<open>apply_changeset_from_conn\<close> that reads the items of the
  changeset. On \<^verbatim>\<open>break\<close> the code goes on with \<^verbatim>\<open>buf\<close> and \<^verbatim>\<open>ptr\<close> (just after the
  tag byte), so the pass gives both.
\<close>

definition is_table_char :: "char \<Rightarrow> bool" where
  "is_table_char c = (c \<in> set ''abcdefghijklmnopqrstuvwxyz'')"

definition chunks_body ::
  "ext \<Rightarrow> replicator \<Rightarrow> path option \<Rightarrow> string \<Rightarrow> world \<Rightarrow> (string \<times> string) pass outcome" where
  "chunks_body x r changes_fd buf w =
     (case get_message_chunk buf (REASONABLE_CHANGESET_SIZE x) w of
        (Inl e, w1) \<Rightarrow> (Inl e, w1)
      | (Inr buf1, w1) \<Rightarrow>
        (case buf1 of
           [] \<Rightarrow> (Inl (NetworkError ''Unexpected end of changeset (2)''), w1)
         | chunk_type # ptr \<Rightarrow>
           if of_char chunk_type = (0::nat) then (Inr (Break (buf1, ptr)), w1)
           else
             (case F_unpack_string x ptr of
                None \<Rightarrow> (Inl (NetworkError ''Unexpected end of changeset (3)''), w1)
              | Some (tablename, ptr') \<Rightarrow>
                if tablename = []
                then (Inl (NetworkError ''Missing tablename in changeset''), w1)
                else if \<not> list_all is_table_char tablename
                then (Inl (NetworkError ''Invalid character in tablename in changeset''), w1)
                else if ptr' = []
                then (Inl (NetworkError ''Unexpected end of changeset (4)''), w1)
                else
                  (case write_and_clear_changes changes_fd buf1 (length buf1 - length ptr') w1 of
                     (Inl e, w2) \<Rightarrow> (Inl e, w2)
                   | (Inr buf2, w2) \<Rightarrow>
                     if of_char chunk_type = (1::nat) then
                       (case process_changeset_chunk_base x r tablename buf2 changes_fd w2 of
                          (Inl e, w3) \<Rightarrow> (Inl e, w3)
                        | (Inr buf3, w3) \<Rightarrow> (Inr (Again buf3), w3))
                     else if of_char chunk_type = (2::nat) then
                       (case process_changeset_chunk_blocks x r tablename buf2 changes_fd w2 of
                          (Inl e, w3) \<Rightarrow> (Inl e, w3)
                        | (Inr buf3, w3) \<Rightarrow> (Inr (Again buf3), w3))
                     else (Inl (NetworkError ''Unrecognised item type in changeset''), w2)))))"

lemma chunks_body_Again:
  assumes "chunks_body x r cfd buf w = (Inr (Again b), w')"
  shows "avail b w' < avail buf w"
  using assms unfolding chunks_body_def
  by (auto split: list.splits if_splits option.splits prod.splits sum.splits
      dest!: write_and_clear_changes_Inr get_message_chunk_avail F_unpack_string_Some
        process_changeset_chunk_base_avail process_changeset_chunk_blocks_avail
      simp: avail_def)

function chunks_loop ::
  "ext \<Rightarrow> replicator \<Rightarrow> path option \<Rightarrow> string \<Rightarrow> world \<Rightarrow> (string \<times> string) outcome" where
  "chunks_loop x r changes_fd buf w =
     (case chunks_body x r changes_fd buf w of
        (Inl e, w') \<Rightarrow> (Inl e, w')
      | (Inr (Break bp), w') \<Rightarrow> (Inr bp, w')
      | (Inr (Again buf'), w') \<Rightarrow> chunks_loop x r changes_fd buf' w')"
  by pat_completeness auto

termination
  by (relation "measure (\<lambda>(x, r, changes_fd, buf, w). avail buf w)")
     (auto dest: chunks_body_Again [OF sym])

declare chunks_loop.simps [simp del]

text \<open>
  The checks of \<^verbatim>\<open>apply_changeset_from_conn\<close> on the first buffer, in the order of the
  code: the magic string, the version, the two revisions and their order, and that a
  byte is left for the changeset type. The result is the start revision, the end
  revision and \<^verbatim>\<open>ptr\<close>. \<^verbatim>\<open>flint_revision_number_t\<close> is taken as 64 bits wide, as the
  spec has it.
\<close>

definition startswith :: "string \<Rightarrow> string \<Rightarrow> bool" where
  "startswith s pfx = (take (length pfx) s = pfx)"

definition changeset_header :: "ext \<Rightarrow> string \<Rightarrow> error + (nat \<times> nat \<times> string)" where
  "changeset_header x buf =
     (if \<not> startswith buf (CHANGES_MAGIC_STRING x)
      then Inl (NetworkError ''Invalid ChangeSet magic string'')
      else
        (case F_unpack_uint x 32 (drop (length (CHANGES_MAGIC_STRING x)) buf) of
           None \<Rightarrow> Inl (NetworkError ''Couldn't read a valid version number from changeset'')
         | Some (changes_version, ptr1) \<Rightarrow>
           if changes_version \<noteq> CHANGES_VERSION x
           then Inl (NetworkError ''Unsupported changeset version'')
           else
             (case F_unpack_uint x 64 ptr1 of
                None \<Rightarrow> Inl (NetworkError ''Couldn't read a valid start revision from changeset'')
              | Some (startrev, ptr2) \<Rightarrow>
                (case F_unpack_uint x 64 ptr2 of
                   None \<Rightarrow> Inl (NetworkError ''Couldn't read a valid end revision from changeset'')
                 | Some (endrev, ptr3) \<Rightarrow>
                   if endrev \<le> startrev
                   then Inl (NetworkError ''End revision in changeset is not later than start revision'')
                   else if ptr3 = []
                   then Inl (NetworkError ''Unexpected end of changeset (1)'')
                   else Inr (startrev, endrev, ptr3)))))"

text \<open>
  The checks of \<^verbatim>\<open>apply_changeset_from_conn\<close> after the loop, on \<^verbatim>\<open>ptr\<close> (which stands
  just after the terminating tag): the required revision, its order with the end
  revision, and that nothing follows it.
\<close>

definition changeset_footer :: "ext \<Rightarrow> nat \<Rightarrow> string \<Rightarrow> error + nat" where
  "changeset_footer x endrev ptr =
     (case F_unpack_uint x 64 ptr of
        None \<Rightarrow> Inl (NetworkError ''Couldn't read a valid required revision from changeset'')
      | Some (reqrev, ptr') \<Rightarrow>
        if reqrev < endrev
        then Inl (NetworkError ''Required revision in changeset is earlier than end revision'')
        else if ptr' \<noteq> []
        then Inl (NetworkError ''Junk found at end of changeset'')
        else Inr reqrev)"

text \<open>
  \<^verbatim>\<open>apply_changeset_from_conn(conn, end_time, valid)\<close>. The connection of the world
  stands at the body of the chunked message (\<^verbatim>\<open>get_message_chunked\<close> has read its
  header; the type it returns is only asserted on).

  Modelled from the spec: \<open>current_on_disk_revision(directory)\<close>, the revision that
  \<^verbatim>\<open>FlintRecordTable::get_open_revision_number\<close> reports (\<^verbatim>\<open>flint_record.h\<close> is not under
  src/). The code reads it before any item of the changeset is applied, so it is the
  revision of the replica when the call starts: the parameter \<open>open_revision_number\<close>.
\<close>

definition apply_changeset_from_conn ::
  "ext \<Rightarrow> replicator \<Rightarrow> nat \<Rightarrow> bool \<Rightarrow> world \<Rightarrow> string outcome" where
  "apply_changeset_from_conn x r open_revision_number valid w =
     (case lock_failure w of
        Some explanation \<Rightarrow> (Inl (DatabaseLockError explanation), w)
      | None \<Rightarrow>
        (case get_message_chunk [] (REASONABLE_CHANGESET_SIZE x) w of
           (Inl e, w1) \<Rightarrow> (Inl e, w1)
         | (Inr buf, w1) \<Rightarrow>
           (case changeset_header x buf of
              Inl e \<Rightarrow> (Inl e, w1)
            | Inr (startrev, endrev, ptr) \<Rightarrow>
              (case (if 0 < max_changesets r
                     then (case create_changeset_file (db_dir r) (''changes'' @ str startrev) w1 of
                             (Inl e, w2) \<Rightarrow> (Inl e, w2)
                           | (Inr fd, w2) \<Rightarrow> (Inr (Some fd), w2))
                     else (Inr None, w1)) of
                 (Inl e, w2) \<Rightarrow> (Inl e, w2)
               | (Inr changes_fd, w2) \<Rightarrow>
                 if valid \<and> startrev \<noteq> open_revision_number
                 then (Inl (NetworkError ''Changeset supplied is for wrong revision number''), w2)
                 else
                   let changes_type = hd ptr in
                   if of_char changes_type \<noteq> (0::nat)
                   then (Inl (NetworkError (''Unsupported changeset type: '' @
                                str (of_char changes_type))), w2)
                   else
                     (case write_and_clear_changes changes_fd buf
                             (length buf - length ptr + 1) w2 of
                        (Inl e, w3) \<Rightarrow> (Inl e, w3)
                      | (Inr buf', w3) \<Rightarrow>
                        (case chunks_loop x r changes_fd buf' w3 of
                           (Inl e, w4) \<Rightarrow> (Inl e, w4)
                         | (Inr (buf4, ptr4), w4) \<Rightarrow>
                           (case changeset_footer x endrev ptr4 of
                              Inl e \<Rightarrow> (Inl e, w4)
                            | Inr reqrev \<Rightarrow>
                              (case write_and_clear_changes changes_fd buf4 (length buf4) w4 of
                                 (Inl e, w5) \<Rightarrow> (Inl e, w5)
                               | (Inr buf5, w5) \<Rightarrow> (Inr (pack_uint x reqrev), w5)))))))))"


subsection \<open>Parts of the calls, and what a chunk carries\<close>

text \<open>The paths that \<^verbatim>\<open>process_changeset_chunk_base\<close> builds.\<close>

definition tmp_path :: "replicator \<Rightarrow> string \<Rightarrow> path" where
  "tmp_path r tablename = db_dir r @ ''/'' @ tablename @ ''tmp''"

definition base_path :: "replicator \<Rightarrow> string \<Rightarrow> char \<Rightarrow> path" where
  "base_path r tablename letter = db_dir r @ ''/'' @ tablename @ ''.base'' @ [letter]"

text \<open>The path that \<^verbatim>\<open>process_changeset_chunk_blocks\<close> builds.\<close>

definition db_path :: "replicator \<Rightarrow> string \<Rightarrow> path" where
  "db_path r tablename = db_dir r @ ''/'' @ tablename @ ''.DB''"

text \<open>
  The part of \<^verbatim>\<open>process_changeset_chunk_base\<close> that comes before the rename (lines 95
  to 140), on its own: its outcome is the letter and \<^verbatim>\<open>buf\<close> as they are when the
  temporary file has been written and synced (\<open>base_file_ready_Inl\<close> and
  \<open>base_file_ready_Inr\<close> below relate it to the whole function).
\<close>

definition base_file_ready ::
  "ext \<Rightarrow> replicator \<Rightarrow> string \<Rightarrow> string \<Rightarrow> path option \<Rightarrow> world \<Rightarrow> (char \<times> string) outcome" where
  "base_file_ready x r tablename buf changes_fd w =
     (case buf of
        [] \<Rightarrow> (Inl (NetworkError ''Invalid base file letter in changeset''), w)
      | letter # ptr \<Rightarrow>
        if letter \<noteq> CHR ''A'' \<and> letter \<noteq> CHR ''B''
        then (Inl (NetworkError ''Invalid base file letter in changeset''), w)
        else if ptr = [] then (Inl (NetworkError ''Unexpected end of changeset (5)''), w)
        else
          (case F_unpack_uint x 64 ptr of
             None \<Rightarrow> (Inl (NetworkError ''Invalid base file size in changeset''), w)
           | Some (base_size, ptr') \<Rightarrow>
             (case write_and_clear_changes changes_fd buf (length buf - length ptr') w of
                (Inl e, w1) \<Rightarrow> (Inl e, w1)
              | (Inr buf1, w1) \<Rightarrow>
                (case get_message_chunk buf1 base_size w1 of
                   (Inl e, w2) \<Rightarrow> (Inl e, w2)
                 | (Inr buf2, w2) \<Rightarrow>
                   if length buf2 < base_size
                   then (Inl (NetworkError ''Unexpected end of changeset (6)''), w2)
                   else
                     (case open_creat_trunc (tmp_path r tablename) w2 of
                        (Some e, w3) \<Rightarrow>
                          (Inl (DatabaseError (''Failed to open '' @ tmp_path r tablename) e), w3)
                      | (None, w3) \<Rightarrow>
                        (case io_write (tmp_path r tablename) (take base_size buf2) w3 of
                           (Inl e, w4) \<Rightarrow> (Inl e, w4)
                         | (Inr u, w4) \<Rightarrow>
                           (case io_sync (tmp_path r tablename) w4 of
                              (Inl e, w5) \<Rightarrow> (Inl e, w5)
                            | (Inr u, w5) \<Rightarrow>
                              (case write_and_clear_changes changes_fd buf2 base_size w5 of
                                 (Inl e, w6) \<Rightarrow> (Inl e, w6)
                               | (Inr buf3, w6) \<Rightarrow> (Inr (letter, buf3), w6)))))))))"

text \<open>
  The content that a base-file chunk carries, following the format of the spec
  (\<open>byte(letter) \<parallel> varint(size) \<parallel> size bytes of content\<close>): the \<open>size\<close> bytes that follow the
  size in the stream, which is the buffer followed by what the connection still
  delivers; \<open>None\<close> when the chunk is malformed or the stream too short.
\<close>

definition base_file_content :: "ext \<Rightarrow> string \<Rightarrow> packet list \<Rightarrow> string option" where
  "base_file_content x buf ps =
     (case buf of
        [] \<Rightarrow> None
      | letter # ptr \<Rightarrow>
        (case F_unpack_uint x 64 ptr of
           None \<Rightarrow> None
         | Some (base_size, ptr') \<Rightarrow>
             if base_size \<le> length (ptr' @ pending ps)
             then Some (take base_size (ptr' @ pending ps)) else None))"

text \<open>
  What a block chunk decodes as, following the format of the spec
  (\<open>{ varint(block_index + 1) \<parallel> block_size bytes }* \<parallel> varint(0)\<close>): the sequence of pairs of an
  index (the tag minus one) and \<open>block_size\<close> bytes, read from the stream (the buffer
  followed by what the connection delivers) up to the tag 0, or up to the place where
  the stream stops decoding. The stream is read as the transport gives it: a buffer of
  at least \<^verbatim>\<open>REASONABLE_CHANGESET_SIZE\<close> bytes for a tag, of at least \<open>block_size\<close> bytes for
  a block.
\<close>

lemma read_chunk_avail:
  "read_chunk buf n ps = (Inr b, ps') \<Longrightarrow>
     length b + length (pending ps') = length buf + length (pending ps)"
  by (drule read_chunk_pending, drule arg_cong [where f = length]) simp

function block_pairs :: "ext \<Rightarrow> nat \<Rightarrow> string \<Rightarrow> packet list \<Rightarrow> (nat \<times> string) list" where
  "block_pairs x block_size buf ps =
     (case read_chunk buf (REASONABLE_CHANGESET_SIZE x) ps of
        (Inl e, ps1) \<Rightarrow> []
      | (Inr buf1, ps1) \<Rightarrow>
        (case F_unpack_uint x 32 buf1 of
           None \<Rightarrow> []
         | Some (tag, ptr) \<Rightarrow>
           if tag = 0 then []
           else
             (case read_chunk ptr block_size ps1 of
                (Inl e, ps2) \<Rightarrow> []
              | (Inr buf2, ps2) \<Rightarrow>
                if length buf2 < block_size then []
                else (tag - 1, take block_size buf2) #
                       block_pairs x block_size (drop block_size buf2) ps2)))"
  by pat_completeness auto

termination
proof (relation "measure (\<lambda>(x, bs, buf, ps). length buf + length (pending ps))", goal_cases)
  case 1
  show ?case by simp
next
  case (2 x bs buf ps r1 ps1 buf1 tp tag ptr r2 ps2 buf2)
  from 2 have "length buf1 + length (pending ps1) = length buf + length (pending ps)"
    by (auto dest: read_chunk_avail [OF sym])
  moreover from 2 have "length ptr < length buf1"
    by (auto dest: F_unpack_uint_Some)
  moreover from 2 have "length buf2 + length (pending ps2) = length ptr + length (pending ps1)"
    by (auto dest: read_chunk_avail [OF sym])
  ultimately show ?case
    by simp
qed

declare block_pairs.simps [simp del]

text \<open>
  Where a block chunk ends: what is left of the buffer and of the connection after the
  tag 0, when the stream decodes as pairs of a tag and \<open>block_size\<close> bytes up to a tag 0,
  read as \<open>block_pairs\<close> reads it; \<open>None\<close> when it does not (a tag that does not decode, a
  block cut short, a timeout).
\<close>

function blocks_end :: "ext \<Rightarrow> nat \<Rightarrow> string \<Rightarrow> packet list \<Rightarrow> (string \<times> packet list) option" where
  "blocks_end x block_size buf ps =
     (case read_chunk buf (REASONABLE_CHANGESET_SIZE x) ps of
        (Inl e, ps1) \<Rightarrow> None
      | (Inr buf1, ps1) \<Rightarrow>
        (case F_unpack_uint x 32 buf1 of
           None \<Rightarrow> None
         | Some (tag, ptr) \<Rightarrow>
           if tag = 0 then Some (ptr, ps1)
           else
             (case read_chunk ptr block_size ps1 of
                (Inl e, ps2) \<Rightarrow> None
              | (Inr buf2, ps2) \<Rightarrow>
                if length buf2 < block_size then None
                else blocks_end x block_size (drop block_size buf2) ps2)))"
  by pat_completeness auto

termination
proof (relation "measure (\<lambda>(x, bs, buf, ps). length buf + length (pending ps))", goal_cases)
  case 1
  show ?case by simp
next
  case (2 x bs buf ps r1 ps1 buf1 tp tag ptr r2 ps2 buf2)
  from 2 have "length buf1 + length (pending ps1) = length buf + length (pending ps)"
    by (auto dest: read_chunk_avail [OF sym])
  moreover from 2 have "length ptr < length buf1"
    by (auto dest: F_unpack_uint_Some)
  moreover from 2 have "length buf2 + length (pending ps2) = length ptr + length (pending ps1)"
    by (auto dest: read_chunk_avail [OF sym])
  ultimately show ?case
    by simp
qed

declare blocks_end.simps [simp del]

text \<open>
  Writing a sequence of blocks in its order, each at the byte offset
  \<open>index * block_size\<close>, into a file with content \<open>c\<close>.
\<close>

definition write_blocks :: "nat \<Rightarrow> string \<Rightarrow> (nat \<times> string) list \<Rightarrow> string" where
  "write_blocks block_size c pairs = foldl (\<lambda>c (i, d). pwrite c (i * block_size) d) c pairs"

text \<open>
  The part of \<^verbatim>\<open>apply_changeset_from_conn\<close> that comes before the loop, on its own: its
  outcome is the end revision, \<^verbatim>\<open>changes_fd\<close> and \<^verbatim>\<open>buf\<close> as the loop finds them. It
  serves to state what happens in the loop and after it within a whole call
  (\<open>apply_changeset_from_conn_loop\<close> below).
\<close>

definition changeset_start ::
  "ext \<Rightarrow> replicator \<Rightarrow> nat \<Rightarrow> bool \<Rightarrow> world \<Rightarrow> (nat \<times> path option \<times> string) outcome" where
  "changeset_start x r open_revision_number valid w =
     (case lock_failure w of
        Some explanation \<Rightarrow> (Inl (DatabaseLockError explanation), w)
      | None \<Rightarrow>
        (case get_message_chunk [] (REASONABLE_CHANGESET_SIZE x) w of
           (Inl e, w1) \<Rightarrow> (Inl e, w1)
         | (Inr buf, w1) \<Rightarrow>
           (case changeset_header x buf of
              Inl e \<Rightarrow> (Inl e, w1)
            | Inr (startrev, endrev, ptr) \<Rightarrow>
              (case (if 0 < max_changesets r
                     then (case create_changeset_file (db_dir r) (''changes'' @ str startrev) w1 of
                             (Inl e, w2) \<Rightarrow> (Inl e, w2)
                           | (Inr fd, w2) \<Rightarrow> (Inr (Some fd), w2))
                     else (Inr None, w1)) of
                 (Inl e, w2) \<Rightarrow> (Inl e, w2)
               | (Inr changes_fd, w2) \<Rightarrow>
                 if valid \<and> startrev \<noteq> open_revision_number
                 then (Inl (NetworkError ''Changeset supplied is for wrong revision number''), w2)
                 else
                   let changes_type = hd ptr in
                   if of_char changes_type \<noteq> (0::nat)
                   then (Inl (NetworkError (''Unsupported changeset type: '' @
                                str (of_char changes_type))), w2)
                   else
                     (case write_and_clear_changes changes_fd buf
                             (length buf - length ptr + 1) w2 of
                        (Inl e, w3) \<Rightarrow> (Inl e, w3)
                      | (Inr buf', w3) \<Rightarrow> (Inr (endrev, changes_fd, buf'), w3))))))"

text \<open>
  The archival file of a changeset that starts at revision \<open>s\<close>, as
  \<^verbatim>\<open>apply_changeset_from_conn\<close> names it, and the files that the two appliers write for
  a table: the temporary file, the two base files and the data file.
\<close>

definition changes_path :: "replicator \<Rightarrow> nat \<Rightarrow> path" where
  "changes_path r s = db_dir r @ ''/'' @ ''changes'' @ str s"

definition is_table_file :: "replicator \<Rightarrow> path \<Rightarrow> bool" where
  "is_table_file r q =
     (\<exists>t. q = tmp_path r t \<or> q = base_path r t (CHR ''A'') \<or> q = base_path r t (CHR ''B'') \<or>
          q = db_path r t)"

definition is_digit :: "char \<Rightarrow> bool" where
  "is_digit c = (c \<in> set ''0123456789'')"

text \<open>
  The world \<open>v\<close> with the file \<open>a\<close> put back to \<open>c\<close>, and a relation between two
  computations: whenever the first one goes from \<open>v\<close> to \<open>v'\<close> with a result, the second
  one goes from \<open>v\<close> to \<open>v'\<close>, both with \<open>a\<close> put back, with the same result. With \<open>nf\<close> set
  the medium is taken to do nothing to the system calls on \<open>a\<close>, before and after.
\<close>

definition restore :: "path \<Rightarrow> string option \<Rightarrow> world \<Rightarrow> world" where
  "restore a c v = v\<lparr>files := (files v)(a := c)\<rparr>"

definition sim :: "path \<Rightarrow> string option \<Rightarrow> bool \<Rightarrow> (world \<Rightarrow> 'r \<times> world) \<Rightarrow> (world \<Rightarrow> 'r \<times> world) \<Rightarrow> bool" where
  "sim a c nf f g \<longleftrightarrow>
     (\<forall>v r v'. (nf \<longrightarrow> faults v a = []) \<longrightarrow> f v = (r, v') \<longrightarrow>
        g (restore a c v) = (r, restore a c v') \<and> (nf \<longrightarrow> faults v' a = []))"

text \<open>The outcome of \<open>changeset_start\<close> without the descriptor of the archival file.\<close>

definition no_fd :: "error + (nat \<times> path option \<times> string) \<Rightarrow> error + (nat \<times> path option \<times> string)" where
  "no_fd res = (case res of Inl e \<Rightarrow> Inl e | Inr (e, cfd, buf) \<Rightarrow> Inr (e, None, buf))"

text \<open>
  What the file \<open>a\<close> holds, followed by the buffer and by what the connection still
  delivers.
\<close>

definition trail :: "path \<Rightarrow> string \<Rightarrow> world \<Rightarrow> string" where
  "trail a buf v = content v a @ buf @ pending (conn v)"

subsection \<open>An instance, for the examples\<close>

text \<open>
  A codec for the examples: integers in base 128, least significant digit first, the top
  bit of a byte saying that another byte follows.
\<close>

fun varint :: "string \<Rightarrow> (nat \<times> nat) option" where
  "varint [] = None"
| "varint (c # cs) =
     (if of_char c < (128::nat) then Some (of_char c, 1)
      else case varint cs of
             None \<Rightarrow> None
           | Some (v, n) \<Rightarrow> Some (of_char c - 128 + 128 * v, Suc n))"

fun pack :: "nat \<Rightarrow> string" where
  "pack n = (if n < 128 then [char_of n] else char_of (128 + n mod 128) # pack (n div 128))"

declare pack.simps [simp del]

definition flint :: ext where
  "flint = \<lparr>CHANGES_MAGIC_STRING = ''FlintChanges'', CHANGES_VERSION = 1,
     REASONABLE_CHANGESET_SIZE = 1024, unpack_uint = varint, pack_uint = pack\<rparr>"

text \<open>A replicator on the directory \<open>db\<close> with the given retention count.\<close>

definition replica :: "int \<Rightarrow> replicator" where
  "replica n = \<lparr>db_dir = ''db'', max_changesets = n\<rparr>"

text \<open>An empty directory on a medium without faults, the lock free, and a connection.\<close>

definition disk :: "packet list \<Rightarrow> world" where
  "disk ps = \<lparr>files = Map.empty, faults = (\<lambda>p. []), conn = ps, lock_failure = None\<rparr>"

text \<open>A header: version 1, start revision 5, end revision 6, and a changeset type.\<close>

definition header56 :: "char \<Rightarrow> string" where
  "header56 kind = ''FlintChanges'' @ [CHR 0x01, CHR 0x05, CHR 0x06, kind]"

text \<open>A changeset from revision 5 to 6 of the supported type, with the given items and footer.\<close>

definition changeset56 :: "string \<Rightarrow> string" where
  "changeset56 items = header56 (CHR 0x00) @ items"

text \<open>A header whose end revision 5 is not later than its start revision 6.\<close>

definition header65 :: string where
  "header65 = ''FlintChanges'' @ [CHR 0x01, CHR 0x06, CHR 0x05, CHR 0x00]"

text \<open>
  An empty directory where the connection delivers the two bytes \<open>hi\<close> and the medium
  does \<open>fs\<close> to the successive system calls on \<open>db/postlisttmp\<close>; the same once the
  temporary file is written; and once it is renamed.
\<close>

definition faulty :: "fault list \<Rightarrow> world" where
  "faulty fs = \<lparr>files = Map.empty, faults = (\<lambda>p. if p = ''db/postlisttmp'' then fs else []),
     conn = [Data ''hi''], lock_failure = None\<rparr>"

definition tmp_written :: "fault list \<Rightarrow> world" where
  "tmp_written fs = \<lparr>files = [''db/postlisttmp'' \<mapsto> ''hi''],
      faults = (\<lambda>p. if p = ''db/postlisttmp'' then fs else []), conn = [],
      lock_failure = None\<rparr>"

definition base_written :: world where
  "base_written = \<lparr>files = [''db/postlist.baseA'' \<mapsto> ''hi''], faults = (\<lambda>p. []), conn = [],
      lock_failure = None\<rparr>"

text \<open>
  A directory that holds the data file of the table \<open>a\<close> with content \<open>c\<close>, and two
  blocks of size 4 in a stream, both with the tag 1 (the index 0).
\<close>

definition table_a :: "string \<Rightarrow> world" where
  "table_a c = \<lparr>files = [''db/a.DB'' \<mapsto> c], faults = (\<lambda>p. []), conn = [], lock_failure = None\<rparr>"

definition two_blocks :: string where
  "two_blocks = [CHR 0x01] @ ''0001'' @ [CHR 0x01] @ ''abcd'' @ [CHR 0x00]"

text \<open>
  A directory that holds the archival file \<open>db/changes5\<close> with content \<open>c\<close>, the
  connection at its end.
\<close>

definition archived56 :: "string \<Rightarrow> world" where
  "archived56 c = \<lparr>files = [''db/changes5'' \<mapsto> c], faults = (\<lambda>p. []), conn = [],
      lock_failure = None\<rparr>"

text \<open>
  Three blocks of size 4 in a stream, for the indices 1, 0 and 1 again; the items of a
  changeset that writes the two blocks above to the table \<open>a\<close> and then the base file \<open>A\<close>
  of the table \<open>b\<close> with the content \<open>hi\<close>, followed by the end of the items and the
  required revision 6; and the directory once these items are applied, or only the
  base file.
\<close>

definition three_blocks :: string where
  "three_blocks = [CHR 0x02] @ ''abcd'' @ [CHR 0x01] @ ''0001'' @ [CHR 0x02] @ ''wxyz'' @ [CHR 0x00]"

definition items_ab :: string where
  "items_ab = [CHR 0x02, CHR 0x01, CHR ''a'', CHR 0x04] @ two_blocks @
     [CHR 0x01, CHR 0x01, CHR ''b'', CHR ''A'', CHR 0x02, CHR ''h'', CHR ''i''] @
     [CHR 0x00, CHR 0x06]"

definition applied_ab :: world where
  "applied_ab = \<lparr>files = [''db/a.DB'' \<mapsto> ''abcd'', ''db/b.baseA'' \<mapsto> ''hi''],
     faults = (\<lambda>p. []), conn = [], lock_failure = None\<rparr>"

definition written_b :: world where
  "written_b = \<lparr>files = [''db/b.baseA'' \<mapsto> ''hi''], faults = (\<lambda>p. []), conn = [],
     lock_failure = None\<rparr>"

text \<open>
  An empty directory where the medium does \<open>fs\<close> to the successive system calls on the
  archival file \<open>db/changes5\<close>; and a directory that holds the data file of the table \<open>a\<close>
  where it does \<open>fs\<close> to those on this data file.
\<close>

definition archive_faults :: "fault list \<Rightarrow> packet list \<Rightarrow> world" where
  "archive_faults fs ps = \<lparr>files = Map.empty,
     faults = (\<lambda>p. if p = ''db/changes5'' then fs else []), conn = ps, lock_failure = None\<rparr>"

definition table_a_faults :: "string \<Rightarrow> fault list \<Rightarrow> world" where
  "table_a_faults c fs = \<lparr>files = [''db/a.DB'' \<mapsto> c],
     faults = (\<lambda>p. if p = ''db/a.DB'' then fs else []), conn = [], lock_failure = None\<rparr>"

section \<open>Properties\<close>

subsection \<open>The examples\<close>

lemma header56_decodes: "changeset_header flint (header56 k) = Inr (5, 6, [k])"
  by (simp add: changeset_header_def header56_def flint_def startswith_def F_unpack_uint_def)

lemma disk_chunk: "0 < n \<Longrightarrow> get_message_chunk [] n (disk [Data d]) = (Inr d, disk [])"
  by (simp add: get_message_chunk_def disk_def)

lemma disk_lock: "lock_failure (disk ps) = None"
  by (simp add: disk_def)

lemma disk_first_chunk:
  "get_message_chunk [] (REASONABLE_CHANGESET_SIZE flint) (disk [Data d]) = (Inr d, disk [])"
  by (simp add: disk_chunk flint_def)

lemma chunk_at_end: "get_message_chunk buf n (disk []) = (Inr buf, disk [])"
  by (simp add: get_message_chunk_def disk_def)

lemma changeset56_header:
  "changeset_header flint (changeset56 items) = Inr (5, 6, CHR 0x00 # items)"
  by (simp add: changeset_header_def changeset56_def header56_def flint_def startswith_def
      F_unpack_uint_def)

lemma changeset56_length: "length (changeset56 items) = 16 + length items"
  by (simp add: changeset56_def header56_def)

lemma changeset56_drop: "drop 16 (changeset56 items) = items"
  by (simp add: changeset56_def header56_def)

lemma flint_uint: "of_char c < (128::nat) \<Longrightarrow> F_unpack_uint flint 64 (c # cs) = Some (of_char c, cs)"
  by (simp add: F_unpack_uint_def flint_def)

subsection \<open>The header and the revision guard\<close>

lemma changeset_header_Inr:
  "changeset_header x buf = Inr (s, e, ptr) \<Longrightarrow> s < e \<and> ptr \<noteq> []"
  by (auto simp: changeset_header_def split: if_splits option.splits)

lemma apply_header_error:
  assumes "lock_failure w = None"
    and "get_message_chunk [] (REASONABLE_CHANGESET_SIZE x) w = (Inr buf, w1)"
    and "changeset_header x buf = Inl err"
  shows "apply_changeset_from_conn x r orn valid w = (Inl err, w1)"
  using assms by (simp add: apply_changeset_from_conn_def)

lemma apply_wrong_revision:
  assumes "lock_failure w = None"
    and "get_message_chunk [] (REASONABLE_CHANGESET_SIZE x) w = (Inr buf, w1)"
    and "changeset_header x buf = Inr (s, e, ptr)"
    and "valid" and "s \<noteq> orn"
  shows "apply_changeset_from_conn x r orn valid w =
     (if 0 < max_changesets r
      then (case create_changeset_file (db_dir r) (''changes'' @ str s) w1 of
              (Inl err, w2) \<Rightarrow> (Inl err, w2)
            | (Inr fd, w2) \<Rightarrow>
                (Inl (NetworkError ''Changeset supplied is for wrong revision number''), w2))
      else (Inl (NetworkError ''Changeset supplied is for wrong revision number''), w1))"
  using assms
  by (simp add: apply_changeset_from_conn_def split: prod.splits sum.splits)

lemma apply_unsupported_type:
  assumes "lock_failure w = None"
    and "get_message_chunk [] (REASONABLE_CHANGESET_SIZE x) w = (Inr buf, w1)"
    and "changeset_header x buf = Inr (s, e, ptr)"
    and "\<not> (valid \<and> s \<noteq> orn)" and "of_char (hd ptr) \<noteq> (0::nat)"
  shows "apply_changeset_from_conn x r orn valid w =
     (if 0 < max_changesets r
      then (case create_changeset_file (db_dir r) (''changes'' @ str s) w1 of
              (Inl err, w2) \<Rightarrow> (Inl err, w2)
            | (Inr fd, w2) \<Rightarrow>
                (Inl (NetworkError (''Unsupported changeset type: '' @ str (of_char (hd ptr)))), w2))
      else (Inl (NetworkError (''Unsupported changeset type: '' @ str (of_char (hd ptr)))), w1))"
  using assms
  by (auto simp add: apply_changeset_from_conn_def Let_def split: prod.splits sum.splits)

lemma syscall_no_fault: "faults w p = [] \<Longrightarrow> syscall p eff w = eff w"
  by (simp add: syscall_def next_fault_def)

lemma create_changeset_file_no_fault:
  "faults w (d @ ''/'' @ f) = [] \<Longrightarrow>
   create_changeset_file d f w = (Inr (d @ ''/'' @ f), w\<lparr>files := (files w)(d @ ''/'' @ f \<mapsto> [])\<rparr>)"
  by (simp add: create_changeset_file_def open_creat_trunc_def syscall_no_fault Let_def)

lemma create_changeset_file_Inl:
  "create_changeset_file d f w = (Inl err, w') \<Longrightarrow> \<exists>m e. err = DatabaseError m e"
  by (auto simp: create_changeset_file_def Let_def split: prod.splits option.splits)

subsection \<open>What a call leaves untouched\<close>

lemma files_next_fault: "files (snd (next_fault p w)) = files w"
  by (simp add: next_fault_def split: list.splits)

lemma faults_next_fault: "q \<noteq> p \<Longrightarrow> faults (snd (next_fault p w)) q = faults w q"
  by (simp add: next_fault_def split: list.splits)

lemma syscall_files:
  assumes "\<And>v. files (snd (eff v)) q = files v q"
  shows "files (snd (syscall p eff w)) q = files w q"
  using files_next_fault [of p w] assms
  by (cases "next_fault p w") (auto simp: syscall_def split: fault.splits)

lemma open_creat_trunc_files:
  "open_creat_trunc p w = (res, w') \<Longrightarrow>
     (\<forall>q. q \<noteq> p \<longrightarrow> files w' q = files w q) \<and> (res = None \<longrightarrow> files w' p = Some [])"
  using files_next_fault [of p w]
  by (cases "next_fault p w")
     (auto simp: open_creat_trunc_def syscall_def split: fault.splits)

lemma write_fd_files: "write_fd p d w = (res, w') \<Longrightarrow> \<forall>q. q \<noteq> p \<longrightarrow> files w' q = files w q"
  using syscall_files [of "\<lambda>w. (None, w\<lparr>files := (files w)(p \<mapsto> content w p @ d)\<rparr>)" _ p w]
  by (auto simp: write_fd_def)

lemma write_at_files: "write_at p off d w = (res, w') \<Longrightarrow> \<forall>q. q \<noteq> p \<longrightarrow> files w' q = files w q"
  using syscall_files [of "\<lambda>w. (None, w\<lparr>files := (files w)(p \<mapsto> pwrite (content w p) off d)\<rparr>)" _ p w]
  by (auto simp: write_at_def)

lemma fsync_files: "fsync p w = (res, w') \<Longrightarrow> files w' = files w"
  using syscall_files [of "\<lambda>w. (None, w)" _ p w]
  by (auto simp: fsync_def)

lemma open_wronly_files: "open_wronly p w = (res, w') \<Longrightarrow> files w' = files w"
  using syscall_files [of "\<lambda>w. (if files w p = None then Some ENOENT else None, w)" _ p w]
  by (auto simp: open_wronly_def)

lemma rename_files:
  "rename a b w = (res, w') \<Longrightarrow> \<forall>q. q \<noteq> a \<and> q \<noteq> b \<longrightarrow> files w' q = files w q"
  using syscall_files [of "\<lambda>w. case files w a of
        None \<Rightarrow> (Some ENOENT, w)
      | Some c \<Rightarrow> (None, w\<lparr>files := (files w)(a := None, b \<mapsto> c)\<rparr>)" _ a w]
  by (auto simp: rename_def split: option.splits)

lemma unlink_files: "unlink p w = (res, w') \<Longrightarrow> \<forall>q. q \<noteq> p \<longrightarrow> files w' q = files w q"
  using syscall_files [of "\<lambda>w. case files w p of
        None \<Rightarrow> (Some ENOENT, w)
      | Some c \<Rightarrow> (None, w\<lparr>files := (files w)(p := None)\<rparr>)" _ p w]
  by (auto simp: unlink_def split: option.splits)

lemma io_write_files: "io_write p d w = (res, w') \<Longrightarrow> \<forall>q. q \<noteq> p \<longrightarrow> files w' q = files w q"
  by (auto simp: io_write_def split: prod.splits option.splits dest!: write_fd_files)

lemma io_write_at_files:
  "io_write_at p off d w = (res, w') \<Longrightarrow> \<forall>q. q \<noteq> p \<longrightarrow> files w' q = files w q"
  by (auto simp: io_write_at_def split: prod.splits option.splits dest!: write_at_files)

lemma io_sync_files: "io_sync p w = (res, w') \<Longrightarrow> files w' = files w"
  by (auto simp: io_sync_def split: prod.splits option.splits dest!: fsync_files)

lemma io_write_Inl: "io_write p d w = (Inl err, w') \<Longrightarrow> \<exists>m c. err = DatabaseError m c"
  by (auto simp: io_write_def split: prod.splits option.splits)

lemma create_changeset_file_files:
  "create_changeset_file d f w = (res, w') \<Longrightarrow>
     (\<forall>q. q \<noteq> d @ ''/'' @ f \<longrightarrow> files w' q = files w q) \<and>
     (\<forall>fd. res = Inr fd \<longrightarrow> fd = d @ ''/'' @ f \<and> files w' fd = Some [])"
  by (auto simp: create_changeset_file_def Let_def split: prod.splits option.splits
      dest!: open_creat_trunc_files)

lemma get_message_chunk_files:
  "get_message_chunk buf n w = (res, w') \<Longrightarrow> files w' = files w \<and> faults w' = faults w"
  by (auto simp: get_message_chunk_def split: prod.splits)

lemma write_and_clear_changes_files:
  "write_and_clear_changes cfd buf n w = (res, w') \<Longrightarrow>
     \<forall>q. cfd \<noteq> Some q \<longrightarrow> files w' q = files w q"
  by (auto simp: write_and_clear_changes_def split: option.splits prod.splits sum.splits
      dest!: io_write_files)

lemma write_and_clear_changes_Inl:
  "write_and_clear_changes cfd buf n w = (Inl err, w') \<Longrightarrow>
     cfd \<noteq> None \<and> (\<exists>m c. err = DatabaseError m c)"
  by (auto simp: write_and_clear_changes_def split: option.splits prod.splits sum.splits
      dest: io_write_Inl)

lemma write_and_clear_changes_no_fault:
  "faults w a = [] \<Longrightarrow>
   write_and_clear_changes (Some a) buf n w =
     (Inr (drop n buf), w\<lparr>files := (files w)(a \<mapsto> content w a @ take n buf)\<rparr>)"
  by (simp add: write_and_clear_changes_def io_write_def write_fd_def syscall_no_fault)

subsection \<open>The call around the loop\<close>

lemma apply_changeset_from_conn_loop:
  "apply_changeset_from_conn x r orn valid w =
     (case changeset_start x r orn valid w of
        (Inl e, w3) \<Rightarrow> (Inl e, w3)
      | (Inr (endrev, changes_fd, buf'), w3) \<Rightarrow>
        (case chunks_loop x r changes_fd buf' w3 of
           (Inl e, w4) \<Rightarrow> (Inl e, w4)
         | (Inr (buf4, ptr4), w4) \<Rightarrow>
           (case changeset_footer x endrev ptr4 of
              Inl e \<Rightarrow> (Inl e, w4)
            | Inr reqrev \<Rightarrow>
              (case write_and_clear_changes changes_fd buf4 (length buf4) w4 of
                 (Inl e, w5) \<Rightarrow> (Inl e, w5)
               | (Inr buf5, w5) \<Rightarrow> (Inr (pack_uint x reqrev), w5)))))"
proof (cases "lock_failure w")
  case (Some explanation)
  then show ?thesis
    by (simp add: apply_changeset_from_conn_def changeset_start_def)
next
  case None
  obtain res w1 where c: "get_message_chunk [] (REASONABLE_CHANGESET_SIZE x) w = (res, w1)"
    by (cases "get_message_chunk [] (REASONABLE_CHANGESET_SIZE x) w")
  show ?thesis
  proof (cases res)
    case (Inl e)
    with None c show ?thesis
      by (simp add: apply_changeset_from_conn_def changeset_start_def)
  next
    case (Inr buf)
    show ?thesis
    proof (cases "changeset_header x buf")
      case (Inl e)
      with None c Inr show ?thesis
        by (simp add: apply_changeset_from_conn_def changeset_start_def)
    next
      case h: (Inr hd)
      obtain s e ptr where hd: "hd = (s, e, ptr)"
        by (cases hd)
      obtain res2 w2 where a: "(if 0 < max_changesets r
                     then (case create_changeset_file (db_dir r) (''changes'' @ str s) w1 of
                             (Inl e, w2) \<Rightarrow> (Inl e, w2)
                           | (Inr fd, w2) \<Rightarrow> (Inr (Some fd), w2))
                     else (Inr None, w1)) = (res2, w2)"
        by (cases "(if 0 < max_changesets r
                     then (case create_changeset_file (db_dir r) (''changes'' @ str s) w1 of
                             (Inl e, w2) \<Rightarrow> (Inl e, w2)
                           | (Inr fd, w2) \<Rightarrow> (Inr (Some fd), w2))
                     else (Inr None, w1))")
      from None c Inr h hd a show ?thesis
        by (cases res2)
           (simp_all add: apply_changeset_from_conn_def changeset_start_def Let_def
             split: prod.splits sum.splits)
    qed
  qed
qed

lemma changeset_start_Inr:
  assumes "changeset_start x r orn valid w = (Inr (e, cfd, buf'), w3)"
  shows "\<exists>buf w1 s ptr. get_message_chunk [] (REASONABLE_CHANGESET_SIZE x) w = (Inr buf, w1) \<and>
           changeset_header x buf = Inr (s, e, ptr)"
  using assms unfolding changeset_start_def Let_def
  by (auto split: option.splits prod.splits sum.splits if_splits)

lemma changeset_footer_Inr:
  "changeset_footer x e ptr = Inr q \<Longrightarrow> e \<le> q \<and> F_unpack_uint x 64 ptr = Some (q, [])"
  by (auto simp: changeset_footer_def split: option.splits if_splits)

lemma apply_Inr:
  assumes "apply_changeset_from_conn x r orn valid w = (Inr ret, w')"
  shows "\<exists>e cfd buf' w3 buf4 ptr4 w4 q.
           changeset_start x r orn valid w = (Inr (e, cfd, buf'), w3) \<and>
           chunks_loop x r cfd buf' w3 = (Inr (buf4, ptr4), w4) \<and>
           changeset_footer x e ptr4 = Inr q \<and>
           write_and_clear_changes cfd buf4 (length buf4) w4 = (Inr [], w') \<and>
           ret = pack_uint x q"
  using assms unfolding apply_changeset_from_conn_loop
  by (auto split: prod.splits sum.splits dest: write_and_clear_changes_Inr)

lemma chunks_loop_Inl:
  "chunks_body x r cfd buf w = (Inl err, w') \<Longrightarrow> chunks_loop x r cfd buf w = (Inl err, w')"
  by (simp add: chunks_loop.simps)

lemma chunks_loop_Again:
  "chunks_body x r cfd buf w = (Inr (Again buf'), w') \<Longrightarrow>
     chunks_loop x r cfd buf w = chunks_loop x r cfd buf' w'"
  by (simp add: chunks_loop.simps)

lemma chunks_loop_Break:
  "chunks_body x r cfd buf w = (Inr (Break bp), w') \<Longrightarrow> chunks_loop x r cfd buf w = (Inr bp, w')"
  by (simp add: chunks_loop.simps)

lemma changeset56_start:
  "\<not> (valid \<and> 5 \<noteq> orn) \<Longrightarrow>
   changeset_start flint (replica 0) orn valid (disk [Data (changeset56 items)]) =
     (Inr (6, None, items), disk [])"
  by (simp add: changeset_start_def disk_lock disk_first_chunk changeset56_header
        replica_def write_and_clear_changes_def changeset56_length changeset56_drop)

lemma end_of_items:
  "chunks_loop flint r None (CHR 0x00 # ptr) (disk []) = (Inr (CHR 0x00 # ptr, ptr), disk [])"
  by (simp add: chunks_loop.simps chunks_body_def chunk_at_end)

lemma empty_changeset_applies:
  assumes "\<not> (valid \<and> 5 \<noteq> orn)"
  shows "apply_changeset_from_conn flint (replica 0) orn valid
           (disk [Data (changeset56 [CHR 0x00, CHR 0x06])]) = (Inr (pack 6), disk [])"
proof -
  have "changeset_footer flint 6 [CHR 0x06] = Inr 6"
    by (simp add: changeset_footer_def flint_uint)
  with assms show ?thesis
    by (simp add: apply_changeset_from_conn_loop changeset56_start end_of_items
        write_and_clear_changes_def)
       (simp add: flint_def)
qed

lemma disk1_create:
  "create_changeset_file (db_dir (replica 1)) (''changes'' @ str 5) (disk []) =
     (Inr ''db/changes5'', (disk [])\<lparr>files := [''db/changes5'' \<mapsto> []]\<rparr>)"
  using create_changeset_file_no_fault [of "disk []" "''db''" "''changes5''"]
  by (simp add: replica_def disk_def str.simps digit_def)

subsection \<open>The claims about the header, the guard and the footer\<close>

text \<open>
  C2 (corrected). The magic string, the version and the revision pair are validated
  before the revision guard: an apply whose header fails one of these checks reports
  that error whatever the trust flag and the replica's revision are. The payload-kind
  tag is checked only after the guard: an apply with \<open>valid\<close> set whose start revision
  differs from the replica's revision reports the revision mismatch (or, archival being
  enabled, the failure to create the archival file), whatever the payload-kind byte is.
\<close>

theorem guard_before_payload_kind:
  assumes "lock_failure w = None"
    and "get_message_chunk [] (REASONABLE_CHANGESET_SIZE x) w = (Inr buf, w1)"
  shows "(changeset_header x buf = Inl err \<longrightarrow>
            apply_changeset_from_conn x r orn valid w = (Inl err, w1)) \<and>
         (changeset_header x buf = Inr (s, e, ptr) \<and> valid \<and> s \<noteq> orn \<longrightarrow>
            fst (apply_changeset_from_conn x r orn valid w) =
              Inl (NetworkError ''Changeset supplied is for wrong revision number'') \<or>
            0 < max_changesets r \<and>
            (\<exists>m c. fst (apply_changeset_from_conn x r orn valid w) = Inl (DatabaseError m c)))"
proof (intro conjI impI)
  assume "changeset_header x buf = Inl err"
  with assms show "apply_changeset_from_conn x r orn valid w = (Inl err, w1)"
    by (rule apply_header_error)
next
  assume h: "changeset_header x buf = Inr (s, e, ptr) \<and> valid \<and> s \<noteq> orn"
  obtain res w2 where c: "create_changeset_file (db_dir r) (''changes'' @ str s) w1 = (res, w2)"
    by (cases "create_changeset_file (db_dir r) (''changes'' @ str s) w1")
  from h assms have a: "apply_changeset_from_conn x r orn valid w =
     (if 0 < max_changesets r
      then (case create_changeset_file (db_dir r) (''changes'' @ str s) w1 of
              (Inl err, w2) \<Rightarrow> (Inl err, w2)
            | (Inr fd, w2) \<Rightarrow>
                (Inl (NetworkError ''Changeset supplied is for wrong revision number''), w2))
      else (Inl (NetworkError ''Changeset supplied is for wrong revision number''), w1))"
    by (intro apply_wrong_revision) auto
  show "fst (apply_changeset_from_conn x r orn valid w) =
              Inl (NetworkError ''Changeset supplied is for wrong revision number'') \<or>
            0 < max_changesets r \<and>
            (\<exists>m c. fst (apply_changeset_from_conn x r orn valid w) = Inl (DatabaseError m c))"
  proof (cases res)
    case (Inl err')
    with c obtain m c' where "err' = DatabaseError m c'"
      by (auto dest: create_changeset_file_Inl)
    with a c Inl show ?thesis by auto
  next
    case (Inr fd)
    with a c show ?thesis by auto
  qed
qed

text \<open>
  C2, at an input: a trusted apply on a replica at revision 7 of a changeset from revision
  5 to 6 whose payload kind is 1.
\<close>

theorem guard_before_payload_kind_witness:
  "lock_failure (disk [Data (header56 (CHR 0x01))]) = None \<and>
   changeset_header flint (header56 (CHR 0x01)) = Inr (5, 6, [CHR 0x01]) \<and>
   fst (apply_changeset_from_conn flint (replica 0) 7 True (disk [Data (header56 (CHR 0x01))])) =
     Inl (NetworkError ''Changeset supplied is for wrong revision number'')"
proof -
  have "\<not> 0 < max_changesets (replica 0)"
    by (simp add: replica_def)
  with guard_before_payload_kind [where s = 5 and e = 6 and ptr = "[CHR 0x01]" and valid = True
      and orn = 7 and r = "replica 0", OF disk_lock disk_first_chunk]
  show ?thesis
    by (simp add: header56_decodes disk_lock)
qed

text \<open>
  C2 as stated fails: the stream carries the unsupported payload kind 1 and starts at
  revision 5, the trusted replica is at revision 4, and the error reported is the
  revision mismatch, not the unsupported payload kind.
\<close>

theorem guard_before_payload_kind_counterexample:
  "changeset_header flint (header56 (CHR 0x01)) = Inr (5, 6, [CHR 0x01]) \<and>
   fst (apply_changeset_from_conn flint (replica 0) 4 True (disk [Data (header56 (CHR 0x01))])) =
     Inl (NetworkError ''Changeset supplied is for wrong revision number'')"
proof -
  have "\<not> 0 < max_changesets (replica 0)"
    by (simp add: replica_def)
  with apply_wrong_revision [OF disk_lock disk_first_chunk header56_decodes, of True 4 "replica 0"]
  show ?thesis
    by (simp add: header56_decodes)
qed


text \<open>
  C10 (confirmed). With a retention count above 0 the archival file, named from the start
  revision, is created once the header revisions have been decoded and before the
  revision guard and the payload-kind check. It is not removed when one of these two
  checks then fails: the apply returns the error and the (empty) archival file is on disk.
\<close>

theorem archive_created_before_checks:
  assumes "lock_failure w = None"
    and "get_message_chunk [] (REASONABLE_CHANGESET_SIZE x) w = (Inr buf, w1)"
    and "changeset_header x buf = Inr (s, e, ptr)"
    and "0 < max_changesets r"
    and "create_changeset_file (db_dir r) (''changes'' @ str s) w1 = (Inr fd, w2)"
    and "valid \<and> s \<noteq> orn \<or> of_char (hd ptr) \<noteq> (0::nat)"
  shows "(\<exists>m. apply_changeset_from_conn x r orn valid w = (Inl (NetworkError m), w2)) \<and>
         files w2 (db_dir r @ ''/changes'' @ str s) = Some []"
proof -
  from assms(5) have "files w2 (db_dir r @ ''/changes'' @ str s) = Some []"
    by (auto dest: create_changeset_file_files)
  moreover have "\<exists>m. apply_changeset_from_conn x r orn valid w = (Inl (NetworkError m), w2)"
  proof (cases "valid \<and> s \<noteq> orn")
    case True
    with apply_wrong_revision [OF assms(1-3), of valid orn r] assms(4,5) show ?thesis
      by simp
  next
    case False
    with assms(6) have "of_char (hd ptr) \<noteq> (0::nat)"
      by simp
    from apply_unsupported_type [OF assms(1-3) False this, of r] assms(4,5) show ?thesis
      by simp
  qed
  ultimately show ?thesis by simp
qed

text \<open>
  C10, at an input: archival enabled on an empty directory, a changeset whose payload
  kind is 1. The apply fails and leaves the file \<open>db/changes5\<close>, which was not there.
\<close>

theorem archive_created_before_checks_witness:
  "files (disk [Data (header56 (CHR 0x01))]) ''db/changes5'' = None \<and>
   (\<exists>m. fst (apply_changeset_from_conn flint (replica 1) 5 False (disk [Data (header56 (CHR 0x01))])) =
      Inl (NetworkError m)) \<and>
   files (snd (apply_changeset_from_conn flint (replica 1) 5 False (disk [Data (header56 (CHR 0x01))])))
     ''db/changes5'' = Some []"
proof -
  have m: "0 < max_changesets (replica 1)"
    by (simp add: replica_def)
  have k: "False \<and> (5::nat) \<noteq> 5 \<or> of_char (hd [CHR 0x01]) \<noteq> (0::nat)"
    by simp
  from archive_created_before_checks [OF disk_lock disk_first_chunk header56_decodes m disk1_create k]
  show ?thesis
    by (auto simp: disk_def)
qed

text \<open>
  C6 (confirmed). With \<open>valid\<close> set and a start revision that differs from the replica's
  revision, the apply fails before any item of the changeset is read from the
  connection or applied: nothing more has been taken from the connection than the first
  buffer, and no file other than the archival file is changed. With \<open>valid\<close> unset, the
  comparison is skipped: the outcome on the same stream is that of a trusted apply on a
  replica whose revision is the start revision.
\<close>

theorem trusted_revision_check:
  assumes "lock_failure w = None"
    and "get_message_chunk [] (REASONABLE_CHANGESET_SIZE x) w = (Inr buf, w1)"
    and "changeset_header x buf = Inr (s, e, ptr)"
    and "s \<noteq> orn"
  shows "(\<exists>err w'. apply_changeset_from_conn x r orn True w = (Inl err, w') \<and>
            conn w' = conn w1 \<and>
            (\<forall>q. q \<noteq> db_dir r @ ''/changes'' @ str s \<longrightarrow> files w' q = files w q)) \<and>
         apply_changeset_from_conn x r orn False w = apply_changeset_from_conn x r s True w"
proof
  obtain res w2 where c: "create_changeset_file (db_dir r) (''changes'' @ str s) w1 = (res, w2)"
    by (cases "create_changeset_file (db_dir r) (''changes'' @ str s) w1")
  from assms(2) have f1: "files w1 = files w"
    by (auto dest: get_message_chunk_files)
  from c have f2: "\<forall>q. q \<noteq> db_dir r @ ''/changes'' @ str s \<longrightarrow> files w2 q = files w1 q"
    by (auto dest: create_changeset_file_files)
  from c have c2: "conn w2 = conn w1"
    using conn_create_changeset_file [of "db_dir r" "''changes'' @ str s" w1] by simp
  from apply_wrong_revision [OF assms(1-3) _ assms(4), of True r] c f1 f2 c2
  show "\<exists>err w'. apply_changeset_from_conn x r orn True w = (Inl err, w') \<and>
            conn w' = conn w1 \<and>
            (\<forall>q. q \<noteq> db_dir r @ ''/changes'' @ str s \<longrightarrow> files w' q = files w q)"
    by (cases res) auto
next
  from assms(1-3)
  show "apply_changeset_from_conn x r orn False w = apply_changeset_from_conn x r s True w"
    by (simp add: apply_changeset_from_conn_def split: prod.splits sum.splits)
qed

text \<open>
  C6, at an input: a replica at revision 4 and an empty changeset from revision 5 to 6.
  The trusted apply fails; the untrusted one succeeds and returns the required revision.
\<close>

theorem trusted_revision_check_witness:
  "(\<exists>err. fst (apply_changeset_from_conn flint (replica 0) 4 True
        (disk [Data (changeset56 [CHR 0x00, CHR 0x06])])) = Inl err) \<and>
   apply_changeset_from_conn flint (replica 0) 4 False
        (disk [Data (changeset56 [CHR 0x00, CHR 0x06])]) = (Inr (pack 6), disk [])"
proof -
  have "(5::nat) \<noteq> 4"
    by simp
  from trusted_revision_check [OF disk_lock disk_first_chunk
      changeset56_header [of "[CHR 0x00, CHR 0x06]"] this, of "replica 0"]
  show ?thesis
    by (auto simp: empty_changeset_applies)
qed

text \<open>
  C5 (confirmed). An apply that returns has decoded a start revision, an end revision
  and a required revision with \<open>start < end \<le> required\<close>, and returns the required
  revision encoded. A header whose end revision is not later than its start revision
  makes the apply fail with a \<open>NetworkError\<close>, and so does a footer whose required
  revision is earlier than the end revision.
\<close>

theorem revision_monotonicity:
  "(apply_changeset_from_conn x r orn valid w = (Inr ret, w') \<longrightarrow>
      (\<exists>buf w1 s e ptr cfd buf' w3 buf4 ptr4 w4 q.
         get_message_chunk [] (REASONABLE_CHANGESET_SIZE x) w = (Inr buf, w1) \<and>
         changeset_header x buf = Inr (s, e, ptr) \<and>
         chunks_loop x r cfd buf' w3 = (Inr (buf4, ptr4), w4) \<and>
         F_unpack_uint x 64 ptr4 = Some (q, []) \<and>
         s < e \<and> e \<le> q \<and> ret = pack_uint x q)) \<and>
   (lock_failure w = None \<and>
    get_message_chunk [] (REASONABLE_CHANGESET_SIZE x) w = (Inr buf, w1) \<and>
    startswith buf (CHANGES_MAGIC_STRING x) \<and>
    F_unpack_uint x 32 (drop (length (CHANGES_MAGIC_STRING x)) buf) = Some (CHANGES_VERSION x, ptr1) \<and>
    F_unpack_uint x 64 ptr1 = Some (s, ptr2) \<and>
    F_unpack_uint x 64 ptr2 = Some (e, ptr3) \<and> e \<le> s \<longrightarrow>
      apply_changeset_from_conn x r orn valid w =
        (Inl (NetworkError ''End revision in changeset is not later than start revision''), w1)) \<and>
   (changeset_start x r orn valid w = (Inr (e, cfd, buf'), w3) \<and>
    chunks_loop x r cfd buf' w3 = (Inr (buf4, ptr4), w4) \<and>
    F_unpack_uint x 64 ptr4 = Some (q, rest) \<and> q < e \<longrightarrow>
      apply_changeset_from_conn x r orn valid w =
        (Inl (NetworkError ''Required revision in changeset is earlier than end revision''), w4))"
proof (intro conjI impI)
  assume "apply_changeset_from_conn x r orn valid w = (Inr ret, w')"
  then obtain e cfd buf' w3 buf4 ptr4 w4 q where
    st: "changeset_start x r orn valid w = (Inr (e, cfd, buf'), w3)" and
    lp: "chunks_loop x r cfd buf' w3 = (Inr (buf4, ptr4), w4)" and
    ft: "changeset_footer x e ptr4 = Inr q" and ret: "ret = pack_uint x q"
    by (auto dest!: apply_Inr)
  from st obtain buf w1 s ptr where
    "get_message_chunk [] (REASONABLE_CHANGESET_SIZE x) w = (Inr buf, w1)"
    "changeset_header x buf = Inr (s, e, ptr)"
    by (auto dest!: changeset_start_Inr)
  moreover from this have "s < e"
    by (auto dest: changeset_header_Inr)
  moreover from ft have "e \<le> q" "F_unpack_uint x 64 ptr4 = Some (q, [])"
    by (auto dest: changeset_footer_Inr)
  ultimately show "\<exists>buf w1 s e ptr cfd buf' w3 buf4 ptr4 w4 q.
         get_message_chunk [] (REASONABLE_CHANGESET_SIZE x) w = (Inr buf, w1) \<and>
         changeset_header x buf = Inr (s, e, ptr) \<and>
         chunks_loop x r cfd buf' w3 = (Inr (buf4, ptr4), w4) \<and>
         F_unpack_uint x 64 ptr4 = Some (q, []) \<and>
         s < e \<and> e \<le> q \<and> ret = pack_uint x q"
    using lp ret by blast
next
  assume a: "lock_failure w = None \<and>
    get_message_chunk [] (REASONABLE_CHANGESET_SIZE x) w = (Inr buf, w1) \<and>
    startswith buf (CHANGES_MAGIC_STRING x) \<and>
    F_unpack_uint x 32 (drop (length (CHANGES_MAGIC_STRING x)) buf) = Some (CHANGES_VERSION x, ptr1) \<and>
    F_unpack_uint x 64 ptr1 = Some (s, ptr2) \<and>
    F_unpack_uint x 64 ptr2 = Some (e, ptr3) \<and> e \<le> s"
  then have "changeset_header x buf =
      Inl (NetworkError ''End revision in changeset is not later than start revision'')"
    by (simp add: changeset_header_def)
  with a show "apply_changeset_from_conn x r orn valid w =
        (Inl (NetworkError ''End revision in changeset is not later than start revision''), w1)"
    by (intro apply_header_error) auto
next
  assume a: "changeset_start x r orn valid w = (Inr (e, cfd, buf'), w3) \<and>
    chunks_loop x r cfd buf' w3 = (Inr (buf4, ptr4), w4) \<and>
    F_unpack_uint x 64 ptr4 = Some (q, rest) \<and> q < e"
  then have "changeset_footer x e ptr4 =
      Inl (NetworkError ''Required revision in changeset is earlier than end revision'')"
    by (simp add: changeset_footer_def)
  with a show "apply_changeset_from_conn x r orn valid w =
        (Inl (NetworkError ''Required revision in changeset is earlier than end revision''), w4)"
    by (simp add: apply_changeset_from_conn_loop)
qed

text \<open>
  C5, at three inputs: a header from revision 6 to 5; a changeset from 5 to 6 that
  requires revision 5; and a changeset from 5 to 6 that requires revision 6, which applies.
\<close>

theorem revision_monotonicity_witness:
  "apply_changeset_from_conn flint (replica 0) 5 True (disk [Data header65]) =
     (Inl (NetworkError ''End revision in changeset is not later than start revision''), disk []) \<and>
   apply_changeset_from_conn flint (replica 0) 5 True (disk [Data (changeset56 [CHR 0x00, CHR 0x05])]) =
     (Inl (NetworkError ''Required revision in changeset is earlier than end revision''), disk []) \<and>
   (\<exists>s e q. s < e \<and> e \<le> q \<and> pack_uint flint 6 = pack_uint flint q \<and>
      apply_changeset_from_conn flint (replica 0) 4 False
        (disk [Data (changeset56 [CHR 0x00, CHR 0x06])]) = (Inr (pack_uint flint 6), disk []))"
proof (intro conjI)
  have 1: "startswith header65 (CHANGES_MAGIC_STRING flint)"
    by (simp add: startswith_def header65_def flint_def)
  have 2: "F_unpack_uint flint 32 (drop (length (CHANGES_MAGIC_STRING flint)) header65) =
      Some (CHANGES_VERSION flint, [CHR 0x06, CHR 0x05, CHR 0x00])"
    by (simp add: header65_def flint_def F_unpack_uint_def)
  have 3: "F_unpack_uint flint 64 [CHR 0x06, CHR 0x05, CHR 0x00] = Some (6, [CHR 0x05, CHR 0x00])"
    and 4: "F_unpack_uint flint 64 [CHR 0x05, CHR 0x00] = Some (5, [CHR 0x00])"
    by (simp_all add: flint_uint)
  show "apply_changeset_from_conn flint (replica 0) 5 True (disk [Data header65]) =
     (Inl (NetworkError ''End revision in changeset is not later than start revision''), disk [])"
    by (rule revision_monotonicity [where buf = header65 and s = 6 and e = 5
          and ?ptr1.0 = "[CHR 0x06, CHR 0x05, CHR 0x00]" and ?ptr2.0 = "[CHR 0x05, CHR 0x00]"
          and ?ptr3.0 = "[CHR 0x00]", THEN conjunct2, THEN conjunct1, THEN mp])
       (simp add: 1 2 3 4 disk_lock disk_first_chunk)
next
  have "F_unpack_uint flint 64 [CHR 0x05] = Some (5, [])"
    by (simp add: flint_uint)
  then show "apply_changeset_from_conn flint (replica 0) 5 True
       (disk [Data (changeset56 [CHR 0x00, CHR 0x05])]) =
     (Inl (NetworkError ''Required revision in changeset is earlier than end revision''), disk [])"
    by (intro revision_monotonicity [where e = 6 and q = 5 and cfd = None
          and buf' = "[CHR 0x00, CHR 0x05]" and ?w3.0 = "disk []" and ?ptr4.0 = "[CHR 0x05]"
          and ?buf4.0 = "[CHR 0x00, CHR 0x05]" and rest = "[]",
          THEN conjunct2, THEN conjunct2, THEN mp])
       (simp add: changeset56_start end_of_items)
next
  have a: "apply_changeset_from_conn flint (replica 0) 4 False
        (disk [Data (changeset56 [CHR 0x00, CHR 0x06])]) = (Inr (pack_uint flint 6), disk [])"
  proof -
    have "pack_uint flint 6 = pack 6"
      by (simp add: flint_def)
    then show ?thesis
      by (simp add: empty_changeset_applies)
  qed
  from revision_monotonicity [THEN conjunct1, THEN mp, OF a] a
  show "\<exists>s e q. s < e \<and> e \<le> q \<and> pack_uint flint 6 = pack_uint flint q \<and>
      apply_changeset_from_conn flint (replica 0) 4 False
        (disk [Data (changeset56 [CHR 0x00, CHR 0x06])]) = (Inr (pack_uint flint 6), disk [])"
    by blast
qed

subsection \<open>The claim about unknown items\<close>

lemma chunks_body_unknown_tag:
  assumes "get_message_chunk buf (REASONABLE_CHANGESET_SIZE x) w = (Inr (tag # ptr), w1)"
    and "of_char tag \<noteq> (0::nat)" and "of_char tag \<noteq> (1::nat)" and "of_char tag \<noteq> (2::nat)"
  shows "\<exists>err w'. chunks_body x r cfd buf w = (Inl err, w') \<and>
           ((\<exists>m. err = NetworkError m) \<or> cfd \<noteq> None \<and> (\<exists>m c. err = DatabaseError m c)) \<and>
           conn w' = conn w1 \<and> (\<forall>q. cfd \<noteq> Some q \<longrightarrow> files w' q = files w q)"
proof -
  from assms(1) have f: "files w1 = files w"
    by (auto dest: get_message_chunk_files)
  show ?thesis
  proof (cases "F_unpack_string x ptr")
    case None
    with assms f show ?thesis
      by (simp add: chunks_body_def)
  next
    case (Some tp)
    obtain tablename ptr' where tp: "tp = (tablename, ptr')"
      by (cases tp)
    obtain res w2 where wc:
      "write_and_clear_changes cfd (tag # ptr) (length (tag # ptr) - length ptr') w1 = (res, w2)"
      by (cases "write_and_clear_changes cfd (tag # ptr) (length (tag # ptr) - length ptr') w1")
    from wc have c2: "conn w2 = conn w1"
      using conn_write_and_clear_changes [of cfd "tag # ptr" "length (tag # ptr) - length ptr'" w1]
      by simp
    from wc f have f2: "\<forall>q. cfd \<noteq> Some q \<longrightarrow> files w2 q = files w q"
      by (auto dest: write_and_clear_changes_files)
    show ?thesis
    proof (cases res)
      case (Inl err)
      with wc have "cfd \<noteq> None \<and> (\<exists>m c. err = DatabaseError m c)"
        by (auto dest: write_and_clear_changes_Inl)
      with assms Some tp wc Inl c2 f2 f show ?thesis
        by (simp add: chunks_body_def)
    next
      case (Inr buf2)
      with assms Some tp wc c2 f2 f show ?thesis
        by (simp add: chunks_body_def)
    qed
  qed
qed

subsection \<open>The Base-File Applier\<close>

lemma base_file_ready_Inl:
  assumes "base_file_ready x r tablename buf changes_fd w = (Inl e, w')"
  shows "process_changeset_chunk_base x r tablename buf changes_fd w = (Inl e, w')"
  using assms unfolding base_file_ready_def
  by (auto simp add: process_changeset_chunk_base_def tmp_path_def base_path_def Let_def
      split: list.split_asm option.split_asm prod.split_asm sum.split_asm if_split_asm)

lemma base_file_ready_Inr:
  assumes "base_file_ready x r tablename buf changes_fd w = (Inr (letter, buf3), w6)"
  shows "process_changeset_chunk_base x r tablename buf changes_fd w =
        (case rename (tmp_path r tablename) (base_path r tablename letter) w6 of
           (None, w7) \<Rightarrow> (Inr buf3, w7)
         | (Some saved_errno, w7) \<Rightarrow>
           (case unlink (tmp_path r tablename) w7 of
              (u, w8) \<Rightarrow>
                if u = Some ENOENT then (Inr buf3, w8)
                else (Inl (DatabaseError (''Couldn't update base file '' @ tablename @ ''.base'' @
                             [letter]) saved_errno), w8)))"
  using assms unfolding base_file_ready_def
  by (auto simp add: process_changeset_chunk_base_def tmp_path_def base_path_def Let_def
      split: list.split_asm option.split_asm prod.split_asm sum.split_asm if_split_asm)
     (auto simp: tmp_path_def base_path_def split: prod.splits option.splits)

lemma syscall_cases:
  assumes "syscall p eff w = (res, w')"
  obtains (ok) w1 where "files w1 = files w" and "conn w1 = conn w" and "eff w1 = (res, w')"
  | (failed) n w1 where "files w1 = files w" and "conn w1 = conn w" and "res = Some (EOTHER n)"
      and "w' = w1"
  | (lost) n w1 where "files w1 = files w" and "conn w1 = conn w" and "res = Some (EOTHER n)"
      and "w' = snd (eff w1)"
proof (cases "next_fault p w")
  case (Pair f w1)
  then have "files w1 = files w" "conn w1 = conn w"
    using files_next_fault [of p w] conn_next_fault [of p w] by simp_all
  with Pair assms show ?thesis
    by (cases f) (auto simp: syscall_def intro: ok failed lost)
qed

lemma open_creat_trunc_None:
  "open_creat_trunc p w = (None, w') \<Longrightarrow> files w' = (files w)(p \<mapsto> [])"
  unfolding open_creat_trunc_def by (erule syscall_cases) auto

lemma write_fd_None:
  "write_fd p d w = (None, w') \<Longrightarrow> files w' = (files w)(p \<mapsto> content w p @ d)"
  unfolding write_fd_def by (erule syscall_cases) (auto simp: content_def)

lemma io_write_Inr:
  "io_write p d w = (Inr u, w') \<Longrightarrow> files w' = (files w)(p \<mapsto> content w p @ d)"
  by (auto simp: io_write_def split: prod.splits option.splits dest: write_fd_None)

lemma rename_None:
  "rename a b w = (None, w') \<Longrightarrow>
     \<exists>c. files w a = Some c \<and> files w' = (files w)(a := None, b \<mapsto> c)"
  unfolding rename_def by (erule syscall_cases) (auto split: option.splits)

lemma rename_Some:
  "rename a b w = (Some e, w') \<Longrightarrow>
     files w' = files w \<or> (\<exists>c. files w a = Some c \<and> files w' = (files w)(a := None, b \<mapsto> c))"
  unfolding rename_def by (erule syscall_cases) (auto split: option.splits)

lemma unlink_ENOENT:
  "unlink p w = (Some ENOENT, w') \<Longrightarrow> files w p = None \<and> files w' = files w"
  unfolding unlink_def by (erule syscall_cases) (auto split: option.splits)

lemma unlink_None:
  "unlink p w = (None, w') \<Longrightarrow> files w p \<noteq> None \<and> files w' p = None"
  unfolding unlink_def by (erule syscall_cases) (auto split: option.splits)

lemma unlink_any:
  "unlink p w = (res, w') \<Longrightarrow> files w' = files w \<or> files w' = (files w)(p := None)"
  unfolding unlink_def by (erule syscall_cases) (auto split: option.splits)

lemma base_file_ready_InrE:
  assumes "base_file_ready x r t buf cfd w = (Inr (letter, buf3), w6)"
  obtains ptr base_size ptr' buf1 w1 buf2 w2 w3 w4 w5 where
    "buf = letter # ptr" and "letter = CHR ''A'' \<or> letter = CHR ''B''" and "ptr \<noteq> []"
    and "F_unpack_uint x 64 ptr = Some (base_size, ptr')"
    and "write_and_clear_changes cfd buf (length buf - length ptr') w = (Inr buf1, w1)"
    and "get_message_chunk buf1 base_size w1 = (Inr buf2, w2)"
    and "base_size \<le> length buf2"
    and "open_creat_trunc (tmp_path r t) w2 = (None, w3)"
    and "io_write (tmp_path r t) (take base_size buf2) w3 = (Inr (), w4)"
    and "io_sync (tmp_path r t) w4 = (Inr (), w5)"
    and "write_and_clear_changes cfd buf2 base_size w5 = (Inr buf3, w6)"
  using assms unfolding base_file_ready_def
  by (auto split: list.split_asm option.split_asm prod.split_asm sum.split_asm if_split_asm)

lemma base_file_ready_files:
  assumes "base_file_ready x r t buf cfd w = (res, w6)"
  shows "\<forall>q. q \<noteq> tmp_path r t \<and> cfd \<noteq> Some q \<longrightarrow> files w6 q = files w q"
  using assms unfolding base_file_ready_def
  by (auto split: list.split_asm option.split_asm prod.split_asm sum.split_asm if_split_asm
      dest!: write_and_clear_changes_files get_message_chunk_files open_creat_trunc_files
        io_write_files io_sync_files)

lemma take_of_prefix:
  "a @ b = c \<Longrightarrow> k \<le> length a \<Longrightarrow> take k a = take k c \<and> k \<le> length c \<and> drop k a @ b = drop k c"
  by auto

lemma base_file_ready_tmp:
  assumes "base_file_ready x r t buf cfd w = (Inr (letter, buf3), w6)"
    and "cfd \<noteq> Some (tmp_path r t)"
  shows "files w6 (tmp_path r t) = base_file_content x buf (conn w) \<and>
         base_file_content x buf (conn w) \<noteq> None \<and> letter = hd buf \<and>
         (letter = CHR ''A'' \<or> letter = CHR ''B'')"
  using assms(1)
proof (rule base_file_ready_InrE)
  fix ptr base_size ptr' buf1 w1 buf2 w2 w3 w4 w5
  assume buf: "buf = letter # ptr" and letter: "letter = CHR ''A'' \<or> letter = CHR ''B''"
    and size: "F_unpack_uint x 64 ptr = Some (base_size, ptr')"
    and wc1: "write_and_clear_changes cfd buf (length buf - length ptr') w = (Inr buf1, w1)"
    and get: "get_message_chunk buf1 base_size w1 = (Inr buf2, w2)"
    and enough: "base_size \<le> length buf2"
    and opn: "open_creat_trunc (tmp_path r t) w2 = (None, w3)"
    and wr: "io_write (tmp_path r t) (take base_size buf2) w3 = (Inr (), w4)"
    and sy: "io_sync (tmp_path r t) w4 = (Inr (), w5)"
    and wc2: "write_and_clear_changes cfd buf2 base_size w5 = (Inr buf3, w6)"
  from size obtain n where n: "n \<le> length ptr" "ptr' = drop n ptr"
    by (auto dest: F_unpack_uint_Some)
  from wc1 have "buf1 = drop (length buf - length ptr') buf" "conn w1 = conn w"
    by (auto dest: write_and_clear_changes_Inr)
  with buf n have b1: "buf1 = ptr'" and c1: "conn w1 = conn w"
    by simp_all
  from get b1 c1 have "buf2 @ pending (conn w2) = ptr' @ pending (conn w)"
    by (auto dest: get_message_chunk_pending)
  with enough have tk: "take base_size buf2 = take base_size (ptr' @ pending (conn w))"
    and le: "base_size \<le> length (ptr' @ pending (conn w))"
    by (auto dest: take_of_prefix)
  from opn have "files w3 (tmp_path r t) = Some []"
    by (auto dest: open_creat_trunc_None)
  with wr have "files w4 (tmp_path r t) = Some (take base_size buf2)"
    by (auto dest: io_write_Inr simp: content_def)
  with sy have "files w5 (tmp_path r t) = Some (take base_size buf2)"
    by (auto dest: io_sync_files)
  with wc2 assms(2) have "files w6 (tmp_path r t) = Some (take base_size buf2)"
    by (auto dest: write_and_clear_changes_files)
  with tk le buf size letter show ?thesis
    by (simp add: base_file_content_def)
qed

lemma base_paths_differ: "tmp_path r t \<noteq> base_path r t letter"
  by (simp add: tmp_path_def base_path_def)

lemma process_changeset_chunk_base_outcome:
  assumes run: "process_changeset_chunk_base x r t buf cfd w = (res, w')"
    and cfd: "cfd \<noteq> Some (tmp_path r t)" "cfd \<noteq> Some (base_path r t (hd buf))"
  shows "(\<forall>q. q \<noteq> tmp_path r t \<and> q \<noteq> base_path r t (hd buf) \<and> cfd \<noteq> Some q \<longrightarrow>
            files w' q = files w q) \<and>
         (files w' (base_path r t (hd buf)) = files w (base_path r t (hd buf)) \<or>
          files w' (base_path r t (hd buf)) = base_file_content x buf (conn w) \<and>
          base_file_content x buf (conn w) \<noteq> None) \<and>
         ((\<exists>b. res = Inr b) \<longrightarrow>
            files w' (base_path r t (hd buf)) = base_file_content x buf (conn w) \<and>
            base_file_content x buf (conn w) \<noteq> None \<and> files w' (tmp_path r t) = None)"
proof (cases "base_file_ready x r t buf cfd w")
  case (Pair rdy w6)
  note fr = base_file_ready_files [OF Pair]
  show ?thesis
  proof (cases rdy)
    case (Inl e)
    with Pair have "process_changeset_chunk_base x r t buf cfd w = (Inl e, w6)"
      by (simp add: base_file_ready_Inl)
    with run fr cfd base_paths_differ [of r t "hd buf"] show ?thesis
      by auto
  next
    case (Inr lb)
    obtain letter buf3 where lb: "lb = (letter, buf3)"
      by (cases lb)
    from Pair Inr lb have rdy: "base_file_ready x r t buf cfd w = (Inr (letter, buf3), w6)"
      by simp
    from base_file_ready_tmp [OF rdy cfd(1)] obtain c where
      tmp6: "files w6 (tmp_path r t) = Some c" and c: "base_file_content x buf (conn w) = Some c"
      and letter: "letter = hd buf"
      by auto
    from fr cfd base_paths_differ [of r t "hd buf"]
    have base6: "files w6 (base_path r t (hd buf)) = files w (base_path r t (hd buf))"
      by auto
    note unf = base_file_ready_Inr [OF rdy, unfolded run letter]
    obtain rn w7 where rn: "rename (tmp_path r t) (base_path r t (hd buf)) w6 = (rn, w7)"
      by (cases "rename (tmp_path r t) (base_path r t (hd buf)) w6")
    show ?thesis
    proof (cases rn)
      case None
      with rn tmp6 have "files w7 = (files w6)(tmp_path r t := None, base_path r t (hd buf) \<mapsto> c)"
        by (auto dest: rename_None)
      moreover from unf rn None have "res = Inr buf3" "w' = w7"
        by simp_all
      ultimately show ?thesis
        using fr c base_paths_differ [of r t "hd buf"] by auto
    next
      case (Some saved_errno)
      with rn tmp6 have f7: "files w7 = files w6 \<or>
          files w7 = (files w6)(tmp_path r t := None, base_path r t (hd buf) \<mapsto> c)"
        by (auto dest: rename_Some)
      obtain u w8 where u: "unlink (tmp_path r t) w7 = (u, w8)"
        by (cases "unlink (tmp_path r t) w7")
      show ?thesis
      proof (cases "u = Some ENOENT")
        case True
        with u have "files w7 (tmp_path r t) = None" "files w8 = files w7"
          by (auto dest: unlink_ENOENT)
        with f7 tmp6 have "files w8 = (files w6)(tmp_path r t := None, base_path r t (hd buf) \<mapsto> c)"
          by auto
        moreover from unf rn Some u True have "res = Inr buf3" "w' = w8"
          by simp_all
        ultimately show ?thesis
          using fr c base_paths_differ [of r t "hd buf"] by auto
      next
        case False
        from u have "files w8 = files w7 \<or> files w8 = (files w7)(tmp_path r t := None)"
          by (rule unlink_any)
        moreover from unf rn Some u False have "\<exists>e. res = Inl e" "w' = w8"
          by simp_all
        ultimately show ?thesis
          using f7 fr c base6 base_paths_differ [of r t "hd buf"] by auto
      qed
    qed
  qed
qed

lemma process_changeset_chunk_base_letter:
  "buf = [] \<or> hd buf \<noteq> CHR ''A'' \<and> hd buf \<noteq> CHR ''B'' \<Longrightarrow>
   process_changeset_chunk_base x r t buf cfd w =
     (Inl (NetworkError ''Invalid base file letter in changeset''), w)"
  by (cases buf) (auto simp: process_changeset_chunk_base_def)

lemma faulty_ready:
  "base_file_ready flint (replica 0) ''postlist'' [CHR ''A'', CHR 0x02] None
     (faulty (NoFault # NoFault # NoFault # fs)) =
   (Inr (CHR ''A'', []), \<lparr>files = [''db/postlisttmp'' \<mapsto> ''hi''],
      faults = (\<lambda>p. if p = ''db/postlisttmp'' then fs else []), conn = [],
      lock_failure = None\<rparr>)"
  by (simp add: base_file_ready_def flint_uint write_and_clear_changes_def get_message_chunk_def
      faulty_def tmp_path_def replica_def open_creat_trunc_def io_write_def write_fd_def
      io_sync_def fsync_def syscall_def next_fault_def content_def fun_eq_iff)

lemma faulty_ready':
  "base_file_ready flint (replica 0) ''postlist'' [CHR ''A'', CHR 0x02] None
     (faulty (NoFault # NoFault # NoFault # fs)) = (Inr (CHR ''A'', []), tmp_written fs)"
  by (simp add: faulty_ready tmp_written_def)

lemma postlist_paths:
  "tmp_path (replica 0) ''postlist'' = ''db/postlisttmp''"
  "base_path (replica 0) ''postlist'' (CHR ''A'') = ''db/postlist.baseA''"
  by (simp_all add: tmp_path_def base_path_def replica_def)

lemma rename_failed:
  "rename ''db/postlisttmp'' ''db/postlist.baseA'' (tmp_written (Fail n # fs)) =
     (Some (EOTHER n), tmp_written fs)"
  by (simp add: rename_def syscall_def next_fault_def tmp_written_def fun_eq_iff)

lemma rename_lost:
  "rename ''db/postlisttmp'' ''db/postlist.baseA'' (tmp_written (Lost n # fs)) =
     (Some (EOTHER n), (tmp_written fs)\<lparr>files := [''db/postlist.baseA'' \<mapsto> ''hi'']\<rparr>)"
  by (simp add: rename_def syscall_def next_fault_def tmp_written_def fun_eq_iff)

lemma rename_done:
  "rename ''db/postlisttmp'' ''db/postlist.baseA'' (tmp_written []) = (None, base_written)"
  by (simp add: rename_def syscall_def next_fault_def tmp_written_def base_written_def fun_eq_iff)

lemma unlink_done:
  "unlink ''db/postlisttmp'' (tmp_written []) = (None, (tmp_written [])\<lparr>files := Map.empty\<rparr>)"
  by (simp add: unlink_def syscall_def next_fault_def tmp_written_def fun_eq_iff)

lemma unlink_gone:
  "unlink ''db/postlisttmp'' ((tmp_written [])\<lparr>files := [''db/postlist.baseA'' \<mapsto> ''hi'']\<rparr>) =
     (Some ENOENT, (tmp_written [])\<lparr>files := [''db/postlist.baseA'' \<mapsto> ''hi'']\<rparr>)"
  by (simp add: unlink_def syscall_def next_fault_def tmp_written_def)

lemma applied_once:
  "process_changeset_chunk_base flint (replica 0) ''postlist'' [CHR ''A'', CHR 0x02] None
     (faulty [NoFault, NoFault, NoFault]) = (Inr [], base_written)"
  using base_file_ready_Inr [OF faulty_ready' [of "[]"]]
  by (simp add: postlist_paths rename_done)

text \<open>
  C1 (corrected). When the new base file has been written to the temporary file and the
  rename onto \<open><table>.base<letter>\<close> reports a failure, the applier unlinks the
  temporary file. The chunk counts as applied, and no error is raised, exactly when that
  unlink fails with \<^verbatim>\<open>ENOENT\<close>, which happens only when the temporary file is no longer
  there (the rename did take place). When the unlink succeeds (the temporary file was
  still there, so the rename did not take place), or fails with another code, a
  \<open>DatabaseError\<close> carrying the error code of the rename is raised.
\<close>

theorem rename_failure_recovery:
  assumes "base_file_ready x r t buf cfd w = (Inr (letter, buf3), w6)"
    and "rename (tmp_path r t) (base_path r t letter) w6 = (Some saved_errno, w7)"
    and "unlink (tmp_path r t) w7 = (u, w8)"
  shows "process_changeset_chunk_base x r t buf cfd w =
           (if u = Some ENOENT then Inr buf3
            else Inl (DatabaseError (''Couldn't update base file '' @ t @ ''.base'' @ [letter])
                        saved_errno), w8) \<and>
         (u = Some ENOENT \<longrightarrow> files w7 (tmp_path r t) = None) \<and>
         (u = None \<longrightarrow> files w7 (tmp_path r t) \<noteq> None \<and> files w8 (tmp_path r t) = None)"
proof -
  from assms have "process_changeset_chunk_base x r t buf cfd w =
           (if u = Some ENOENT then Inr buf3
            else Inl (DatabaseError (''Couldn't update base file '' @ t @ ''.base'' @ [letter])
                        saved_errno), w8)"
    by (simp add: base_file_ready_Inr)
  moreover from assms(3) have "u = Some ENOENT \<longrightarrow> files w7 (tmp_path r t) = None"
    by (auto dest: unlink_ENOENT)
  moreover from assms(3)
  have "u = None \<longrightarrow> files w7 (tmp_path r t) \<noteq> None \<and> files w8 (tmp_path r t) = None"
    by (auto dest: unlink_None)
  ultimately show ?thesis
    by blast
qed

text \<open>
  C1, at two inputs: a rename that takes effect but reports the failure 5 (the chunk is
  applied), and a rename that fails with 5 and has no effect (the unlink succeeds and
  the error is raised).
\<close>

theorem rename_failure_recovery_witness:
  "process_changeset_chunk_base flint (replica 0) ''postlist'' [CHR ''A'', CHR 0x02] None
     (faulty [NoFault, NoFault, NoFault, Lost 5]) =
     (Inr [], (tmp_written [])\<lparr>files := [''db/postlist.baseA'' \<mapsto> ''hi'']\<rparr>) \<and>
   process_changeset_chunk_base flint (replica 0) ''postlist'' [CHR ''A'', CHR 0x02] None
     (faulty [NoFault, NoFault, NoFault, Fail 5]) =
     (Inl (DatabaseError ''Couldn't update base file postlist.baseA'' (EOTHER 5)),
      (tmp_written [])\<lparr>files := Map.empty\<rparr>)"
proof
  show "process_changeset_chunk_base flint (replica 0) ''postlist'' [CHR ''A'', CHR 0x02] None
     (faulty [NoFault, NoFault, NoFault, Lost 5]) =
     (Inr [], (tmp_written [])\<lparr>files := [''db/postlist.baseA'' \<mapsto> ''hi'']\<rparr>)"
    using rename_failure_recovery [of flint "replica 0" "''postlist''" "[CHR ''A'', CHR 0x02]" None
      "faulty [NoFault, NoFault, NoFault, Lost 5]" "CHR ''A''" "[]" "tmp_written [Lost 5]"
      "EOTHER 5" "(tmp_written [])\<lparr>files := [''db/postlist.baseA'' \<mapsto> ''hi'']\<rparr>" "Some ENOENT"
      "(tmp_written [])\<lparr>files := [''db/postlist.baseA'' \<mapsto> ''hi'']\<rparr>"]
    by (simp add: faulty_ready' postlist_paths rename_lost unlink_gone)
next
  show "process_changeset_chunk_base flint (replica 0) ''postlist'' [CHR ''A'', CHR 0x02] None
     (faulty [NoFault, NoFault, NoFault, Fail 5]) =
     (Inl (DatabaseError ''Couldn't update base file postlist.baseA'' (EOTHER 5)),
      (tmp_written [])\<lparr>files := Map.empty\<rparr>)"
    using rename_failure_recovery [of flint "replica 0" "''postlist''" "[CHR ''A'', CHR 0x02]" None
      "faulty [NoFault, NoFault, NoFault, Fail 5]" "CHR ''A''" "[]" "tmp_written [Fail 5]"
      "EOTHER 5" "tmp_written []" None "(tmp_written [])\<lparr>files := Map.empty\<rparr>"]
    by (simp add: faulty_ready' postlist_paths rename_failed unlink_done)
qed

text \<open>
  C1 as stated fails: the rename fails with code 5 and has no effect, the unlink of the
  temporary file then succeeds, and the chunk is not treated as applied: the
  \<open>DatabaseError\<close> is raised.
\<close>

theorem rename_failure_recovery_counterexample:
  "fst (rename ''db/postlisttmp'' ''db/postlist.baseA'' (tmp_written [Fail 5])) = Some (EOTHER 5) \<and>
   fst (unlink ''db/postlisttmp''
     (snd (rename ''db/postlisttmp'' ''db/postlist.baseA'' (tmp_written [Fail 5])))) = None \<and>
   fst (process_changeset_chunk_base flint (replica 0) ''postlist'' [CHR ''A'', CHR 0x02] None
     (faulty [NoFault, NoFault, NoFault, Fail 5])) =
     Inl (DatabaseError ''Couldn't update base file postlist.baseA'' (EOTHER 5))"
  using base_file_ready_Inr [OF faulty_ready' [of "[Fail 5]"]]
  by (simp add: postlist_paths rename_failed unlink_done)

text \<open>
  C8 (confirmed). When a base-file chunk has been applied, applying the same chunk again
  (the same buffer and the same bytes on the connection, on the files the first call
  left, whatever the medium then does) leaves \<open><table>.base<letter>\<close> as the first call
  left it, whether the second call returns or fails.
\<close>

theorem base_file_idempotent:
  assumes "process_changeset_chunk_base x r t buf cfd w = (Inr b, w1)"
    and "process_changeset_chunk_base x r t buf cfd' v = (res, w2)"
    and "files v = files w1" and "pending (conn v) = pending (conn w)"
    and "cfd \<noteq> Some (tmp_path r t)" and "cfd \<noteq> Some (base_path r t (hd buf))"
    and "cfd' \<noteq> Some (tmp_path r t)" and "cfd' \<noteq> Some (base_path r t (hd buf))"
  shows "files w2 (base_path r t (hd buf)) = files w1 (base_path r t (hd buf))"
proof -
  from process_changeset_chunk_base_outcome [OF assms(1,5,6)]
  have "files w1 (base_path r t (hd buf)) = base_file_content x buf (conn w)"
    by blast
  moreover from assms(4) have "base_file_content x buf (conn v) = base_file_content x buf (conn w)"
    by (simp add: base_file_content_def split: list.splits option.splits)
  ultimately show ?thesis
    using process_changeset_chunk_base_outcome [OF assms(2,7,8)] assms(3)
    by auto
qed

text \<open>C8, at an input: the chunk \<open>A\<close>, size 2, content \<open>hi\<close>, applied a second time.\<close>

theorem base_file_idempotent_witness:
  "files base_written ''db/postlist.baseA'' = Some ''hi'' \<and>
   files (snd (process_changeset_chunk_base flint (replica 0) ''postlist'' [CHR ''A'', CHR 0x02] None
     (base_written\<lparr>conn := [Data ''hi'']\<rparr>))) ''db/postlist.baseA'' = Some ''hi''"
proof -
  have "pending (conn (base_written\<lparr>conn := [Data ''hi'']\<rparr>)) =
      pending (conn (faulty [NoFault, NoFault, NoFault]))"
    by (simp add: faulty_def)
  with base_file_idempotent [where cfd' = None and v = "base_written\<lparr>conn := [Data ''hi'']\<rparr>"
      and res = "fst (process_changeset_chunk_base flint (replica 0) ''postlist''
         [CHR ''A'', CHR 0x02] None (base_written\<lparr>conn := [Data ''hi'']\<rparr>))"
      and ?w2.0 = "snd (process_changeset_chunk_base flint (replica 0) ''postlist''
         [CHR ''A'', CHR 0x02] None (base_written\<lparr>conn := [Data ''hi'']\<rparr>))", OF applied_once]
  show ?thesis
    by (simp add: postlist_paths base_written_def)
qed


subsection \<open>The Block Applier\<close>

lemma length_pwrite: "length (pwrite c off d) = max (length c) (off + length d)"
  by (auto simp: pwrite_def)

lemma pwrite_same: "take (length d) (drop off (pwrite c off d)) = d"
  by (simp add: pwrite_def)

lemma pwrite_before:
  "off' + n \<le> off \<Longrightarrow> off' + n \<le> length c \<Longrightarrow>
     take n (drop off' (pwrite c off d)) = take n (drop off' c)"
  by (simp add: pwrite_def drop_take min_def)

lemma pwrite_after:
  "off + length d \<le> off' \<Longrightarrow> drop off' (pwrite c off d) = drop off' c"
  by (cases "length c \<le> off") (auto simp: pwrite_def min_def)

lemma block_offsets:
  fixes i j bs :: nat
  assumes "i \<noteq> j"
  shows "i * bs + bs \<le> j * bs \<or> j * bs + bs \<le> i * bs"
proof (cases "i < j")
  case True
  then have "Suc i \<le> j" by simp
  then have "Suc i * bs \<le> j * bs" by (rule mult_le_mono1)
  then show ?thesis by simp
next
  case False
  with assms have "Suc j \<le> i" by simp
  then have "Suc j * bs \<le> i * bs" by (rule mult_le_mono1)
  then show ?thesis by simp
qed

lemma pwrite_other_block:
  assumes "i \<noteq> j" and "length d = bs" and "i * bs + bs \<le> length c"
  shows "take bs (drop (i * bs) (pwrite c (j * bs) d)) = take bs (drop (i * bs) c)"
  using block_offsets [OF assms(1), of bs] assms(2,3)
  by (auto simp: pwrite_before pwrite_after)

lemma write_blocks_snoc:
  "write_blocks bs c (pairs @ [(i, d)]) = pwrite (write_blocks bs c pairs) (i * bs) d"
  by (simp add: write_blocks_def)

lemma write_blocks_Cons:
  "write_blocks bs c ((i, d) # pairs) = write_blocks bs (pwrite c (i * bs) d) pairs"
  by (simp add: write_blocks_def)

lemma write_blocks_last_wins:
  assumes "\<forall>(i, d) \<in> set pairs. length d = bs"
  shows "\<forall>(i, d) \<in> set pairs.
           i * bs + bs \<le> length (write_blocks bs c pairs) \<and>
           Some (take bs (drop (i * bs) (write_blocks bs c pairs))) = map_of (rev pairs) i"
  using assms
proof (induction pairs rule: rev_induct)
  case Nil
  show ?case by simp
next
  case (snoc p pairs)
  obtain j e where p: "p = (j, e)" by (cases p)
  from snoc.prems p have e: "length e = bs" and all: "\<forall>(i, d) \<in> set pairs. length d = bs"
    by auto
  note IH = snoc.IH [OF all]
  show ?case
  proof (clarify)
    fix i d
    assume mem: "(i, d) \<in> set (pairs @ [p])"
    show "i * bs + bs \<le> length (write_blocks bs c (pairs @ [p])) \<and>
          Some (take bs (drop (i * bs) (write_blocks bs c (pairs @ [p])))) =
            map_of (rev (pairs @ [p])) i"
    proof (cases "i = j")
      case True
      with p e show ?thesis
        using pwrite_same [of e "j * bs" "write_blocks bs c pairs"]
        by (simp add: write_blocks_snoc length_pwrite)
    next
      case False
      with mem p have "(i, d) \<in> set pairs" by auto
      with IH have len: "i * bs + bs \<le> length (write_blocks bs c pairs)"
        and old: "Some (take bs (drop (i * bs) (write_blocks bs c pairs))) = map_of (rev pairs) i"
        by auto
      from False p e len old show ?thesis
        by (simp add: write_blocks_snoc length_pwrite pwrite_other_block)
    qed
  qed
qed

lemma blocks_loop_induct [consumes 1, case_names Inl Break Again]:
  assumes run: "blocks_loop x fd cfd bs buf w = (res, w')"
    and err: "\<And>buf w e. blocks_body x fd cfd bs buf w = (Inl e, w') \<Longrightarrow> res = Inl e \<Longrightarrow> P buf w"
    and brk: "\<And>buf w b. blocks_body x fd cfd bs buf w = (Inr (Break b), w') \<Longrightarrow> res = Inr b \<Longrightarrow>
                P buf w"
    and again: "\<And>buf w buf1 w1. blocks_body x fd cfd bs buf w = (Inr (Again buf1), w1) \<Longrightarrow>
                blocks_loop x fd cfd bs buf1 w1 = (res, w') \<Longrightarrow> P buf1 w1 \<Longrightarrow> P buf w"
  shows "P buf w"
  using assms
proof (induction x fd cfd bs buf w rule: blocks_loop.induct)
  case (1 x fd cfd bs buf w)
  show ?case
  proof (cases "blocks_body x fd cfd bs buf w")
    case (Pair r w1)
    show ?thesis
    proof (cases r)
      case (Inl e)
      with Pair "1.prems"(1) show ?thesis
        by (auto simp: blocks_loop.simps intro: "1.prems"(2))
    next
      case (Inr ps)
      show ?thesis
      proof (cases ps)
        case (Break b)
        with Pair Inr "1.prems"(1) show ?thesis
          by (auto simp: blocks_loop.simps intro: "1.prems"(3))
      next
        case (Again b1)
        with Pair Inr "1.prems"(1) have l: "blocks_loop x fd cfd bs b1 w1 = (res, w')"
          by (simp add: blocks_loop.simps)
        have "P b1 w1"
          by (rule "1.IH" [OF Pair [symmetric] Inr Again l "1.prems"(2-4)])
        with Pair Inr Again l show ?thesis
          by (auto intro: "1.prems"(4))
      qed
    qed
  qed
qed

lemma blocks_loop_Break:
  "blocks_body x fd cfd bs buf w = (Inr (Break b), w') \<Longrightarrow> blocks_loop x fd cfd bs buf w = (Inr b, w')"
  by (simp add: blocks_loop.simps)

lemma blocks_loop_Again:
  "blocks_body x fd cfd bs buf w = (Inr (Again b), w') \<Longrightarrow>
     blocks_loop x fd cfd bs buf w = blocks_loop x fd cfd bs b w'"
  by (simp add: blocks_loop.simps)

lemma get_message_chunk_read:
  "get_message_chunk buf n w = (res, w') \<Longrightarrow>
     read_chunk buf n (conn w) = (res, conn w') \<and> files w' = files w"
  by (auto simp: get_message_chunk_def split: prod.splits)

lemma write_at_None:
  "write_at p off d w = (None, w') \<Longrightarrow> files w' = (files w)(p \<mapsto> pwrite (content w p) off d)"
  unfolding write_at_def by (erule syscall_cases) (auto simp: content_def)

lemma io_write_at_Inr:
  "io_write_at p off d w = (Inr u, w') \<Longrightarrow>
     files w' = (files w)(p \<mapsto> pwrite (content w p) off d)"
  by (auto simp: io_write_at_def split: prod.splits option.splits dest: write_at_None)

lemma write_and_clear_changes_eff:
  "write_and_clear_changes cfd buf n w = (Inr b, w') \<Longrightarrow>
     b = drop n buf \<and> conn w' = conn w \<and> (\<forall>q. cfd \<noteq> Some q \<longrightarrow> files w' q = files w q)"
  by (frule write_and_clear_changes_Inr, drule write_and_clear_changes_files) simp

lemma drop_to_suffix:
  "F_unpack_uint x bits s = Some (v, rest) \<Longrightarrow> drop (length s - length rest) s = rest"
  by (auto dest!: F_unpack_uint_Some)

lemma blocks_body_AgainE:
  assumes "blocks_body x fd cfd bs buf w = (Inr (Again b), w')"
  obtains buf1 w1 tag ptr buf2 w2 buf3 w3 w4 where
    "get_message_chunk buf (REASONABLE_CHANGESET_SIZE x) w = (Inr buf1, w1)"
    and "F_unpack_uint x 32 buf1 = Some (tag, ptr)" and "tag \<noteq> 0"
    and "write_and_clear_changes cfd buf1 (length buf1 - length ptr) w1 = (Inr buf2, w2)"
    and "get_message_chunk buf2 bs w2 = (Inr buf3, w3)" and "bs \<le> length buf3"
    and "lseek_ok (bs * (tag - 1))"
    and "io_write_at fd (bs * (tag - 1)) (take bs buf3) w3 = (Inr (), w4)"
    and "write_and_clear_changes cfd buf3 bs w4 = (Inr b, w')"
  using assms unfolding blocks_body_def Let_def
  by (auto split: option.split_asm prod.split_asm sum.split_asm if_split_asm)

lemma blocks_body_Again_pairs:
  assumes "blocks_body x fd cfd bs buf w = (Inr (Again b), w')" and "cfd \<noteq> Some fd"
  shows "\<exists>i d. block_pairs x bs buf (conn w) = (i, d) # block_pairs x bs b (conn w') \<and>
           length d = bs \<and> lseek_ok (i * bs) \<and>
           files w' fd = Some (pwrite (content w fd) (i * bs) d)"
  using assms(1)
proof (rule blocks_body_AgainE)
  fix buf1 w1 tag ptr buf2 w2 buf3 w3 w4
  assume g1: "get_message_chunk buf (REASONABLE_CHANGESET_SIZE x) w = (Inr buf1, w1)"
    and tag: "F_unpack_uint x 32 buf1 = Some (tag, ptr)" "tag \<noteq> 0"
    and wc1: "write_and_clear_changes cfd buf1 (length buf1 - length ptr) w1 = (Inr buf2, w2)"
    and g2: "get_message_chunk buf2 bs w2 = (Inr buf3, w3)" and len: "bs \<le> length buf3"
    and seek: "lseek_ok (bs * (tag - 1))"
    and wr: "io_write_at fd (bs * (tag - 1)) (take bs buf3) w3 = (Inr (), w4)"
    and wc2: "write_and_clear_changes cfd buf3 bs w4 = (Inr b, w')"
  from g1 have r1: "read_chunk buf (REASONABLE_CHANGESET_SIZE x) (conn w) = (Inr buf1, conn w1)"
    and f1: "files w1 = files w"
    by (auto dest: get_message_chunk_read)
  from wc1 tag(1) assms(2) have b2: "buf2 = ptr" and c2: "conn w2 = conn w1"
    and f2: "files w2 fd = files w1 fd"
    by (auto dest!: write_and_clear_changes_eff simp: drop_to_suffix)
  from g2 b2 c2 have r2: "read_chunk ptr bs (conn w1) = (Inr buf3, conn w3)"
    and f3: "files w3 = files w2"
    by (auto dest: get_message_chunk_read)
  from wr have f4: "files w4 fd = Some (pwrite (content w3 fd) (bs * (tag - 1)) (take bs buf3))"
    and c4: "conn w4 = conn w3"
    by (auto dest: io_write_at_Inr io_write_at_conn)
  from wc2 assms(2) have b: "b = drop bs buf3" and c5: "conn w' = conn w4"
    and f5: "files w' fd = files w4 fd"
    by (auto dest!: write_and_clear_changes_eff)
  from f1 f2 f3 have "content w3 fd = content w fd"
    by (simp add: content_def)
  with f4 f5 have "files w' fd = Some (pwrite (content w fd) ((tag - 1) * bs) (take bs buf3))"
    by (simp add: mult.commute)
  moreover from r1 tag r2 len b c4 c5
  have "block_pairs x bs buf (conn w) = (tag - 1, take bs buf3) # block_pairs x bs b (conn w')"
    by (subst block_pairs.simps) simp
  moreover from len have "length (take bs buf3) = bs"
    by simp
  moreover from seek have "lseek_ok ((tag - 1) * bs)"
    by (simp add: mult.commute)
  ultimately show ?thesis
    by blast
qed

lemma blocks_body_Break_pairs:
  assumes "blocks_body x fd cfd bs buf w = (Inr (Break b), w')" and "cfd \<noteq> Some fd"
  shows "block_pairs x bs buf (conn w) = [] \<and> files w' fd = files w fd"
proof -
  from assms(1) obtain buf1 w1 ptr where
    g1: "get_message_chunk buf (REASONABLE_CHANGESET_SIZE x) w = (Inr buf1, w1)"
    and tag: "F_unpack_uint x 32 buf1 = Some (0, ptr)"
    and wc1: "write_and_clear_changes cfd buf1 (length buf1 - length ptr) w1 = (Inr b, w')"
    unfolding blocks_body_def Let_def
    by (auto split: option.split_asm prod.split_asm sum.split_asm if_split_asm)
  from g1 have "read_chunk buf (REASONABLE_CHANGESET_SIZE x) (conn w) = (Inr buf1, conn w1)"
    and "files w1 = files w"
    by (auto dest: get_message_chunk_read)
  moreover from wc1 assms(2) have "files w' fd = files w1 fd"
    by (auto dest!: write_and_clear_changes_eff)
  ultimately show ?thesis
    using tag by (subst block_pairs.simps) simp
qed

lemma blocks_loop_pairs:
  assumes "blocks_loop x fd cfd bs buf w = (Inr b, w')" and "cfd \<noteq> Some fd"
  shows "content w' fd = write_blocks bs (content w fd) (block_pairs x bs buf (conn w)) \<and>
         (\<forall>(i, d) \<in> set (block_pairs x bs buf (conn w)). length d = bs \<and> lseek_ok (i * bs))"
  using assms(1)
proof (induction rule: blocks_loop_induct)
  case (Inl buf w e)
  then show ?case by simp
next
  case (Break buf w b')
  with assms(2) show ?case
    by (auto dest!: blocks_body_Break_pairs simp: write_blocks_def content_def)
next
  case (Again buf w buf1 w1)
  from blocks_body_Again_pairs [OF Again(1) assms(2)] obtain i d where
    "block_pairs x bs buf (conn w) = (i, d) # block_pairs x bs buf1 (conn w1)"
    "length d = bs" "lseek_ok (i * bs)" "files w1 fd = Some (pwrite (content w fd) (i * bs) d)"
    by blast
  with Again(3) show ?case
    by (simp add: write_blocks_Cons content_def)
qed

lemma open_wronly_None: "open_wronly p w = (None, w') \<Longrightarrow> files w' = files w \<and> files w p \<noteq> None"
  unfolding open_wronly_def by (erule syscall_cases) (auto split: if_splits)

lemma open_db_file_Inr:
  assumes "open_db_file p w = (Inr u, w')"
  shows "content w' p = content w p \<and> files w' p \<noteq> None \<and>
         (\<forall>q. q \<noteq> p \<longrightarrow> files w' q = files w q)"
proof (cases "open_wronly p w")
  case (Pair res w1)
  show ?thesis
  proof (cases res)
    case None
    with Pair assms have "w' = w1"
      by (simp add: open_db_file_def)
    with Pair None show ?thesis
      by (auto dest!: open_wronly_None simp: content_def)
  next
    case (Some e)
    from Pair have f1: "files w1 = files w"
      by (rule open_wronly_files)
    from Pair Some assms have "files w1 p = None" and "open_creat_trunc p w1 = (None, w')"
      by (auto simp: open_db_file_def file_exists_def split: if_split_asm prod.split_asm
          option.split_asm)
    with f1 show ?thesis
      by (auto dest!: open_creat_trunc_None simp: content_def)
  qed
qed

lemma process_changeset_chunk_blocksE:
  assumes "process_changeset_chunk_blocks x r t buf cfd w = (Inr b, w')"
  obtains bs ptr buf1 w1 w3 w4 where
    "F_unpack_uint x 32 buf = Some (bs, ptr)"
    and "write_and_clear_changes cfd buf (length buf - length ptr) w = (Inr buf1, w1)"
    and "open_db_file (db_path r t) w1 = (Inr (), w3)"
    and "blocks_loop x (db_path r t) cfd bs buf1 w3 = (Inr b, w4)"
    and "io_sync (db_path r t) w4 = (Inr (), w')"
  using assms unfolding process_changeset_chunk_blocks_def Let_def db_path_def
  by (auto split: option.split_asm prod.split_asm sum.split_asm)

lemma flint_uint32:
  "of_char c < (128::nat) \<Longrightarrow> F_unpack_uint flint 32 (c # cs) = Some (of_char c, cs)"
  by (simp add: F_unpack_uint_def flint_def)

lemma table_a_chunk: "get_message_chunk buf n (table_a c) = (Inr buf, table_a c)"
  by (simp add: get_message_chunk_def table_a_def)

lemma table_a_block:
  "blocks_body flint ''db/a.DB'' None 4 (CHR 0x01 # d1 # d2 # d3 # d4 # rest) (table_a c) =
     (Inr (Again rest), table_a (pwrite c 0 [d1, d2, d3, d4]))"
  by (simp add: blocks_body_def table_a_chunk flint_uint32 write_and_clear_changes_def lseek_ok_def)
     (simp add: io_write_at_def write_at_def syscall_def next_fault_def table_a_def content_def
       write_and_clear_changes_def)

lemma table_a_end:
  "blocks_body flint ''db/a.DB'' None 4 (CHR 0x00 # rest) (table_a c) = (Inr (Break rest), table_a c)"
  by (simp add: blocks_body_def table_a_chunk flint_uint32 write_and_clear_changes_def)

lemma table_a_loop:
  "blocks_loop flint ''db/a.DB'' None 4 two_blocks (table_a []) = (Inr [], table_a ''abcd'')"
  by (simp add: two_blocks_def blocks_loop_Again [OF table_a_block] blocks_loop_Break [OF table_a_end]
      pwrite_def)

lemma table_a_created: "open_db_file ''db/a.DB'' (disk []) = (Inr (), table_a [])"
  by (simp add: open_db_file_def open_wronly_def open_creat_trunc_def syscall_def next_fault_def
      disk_def file_exists_def table_a_def)

lemma table_a_sync: "io_sync ''db/a.DB'' (table_a c) = (Inr (), table_a c)"
  by (simp add: io_sync_def fsync_def syscall_def next_fault_def table_a_def)

lemma two_blocks_applied:
  "process_changeset_chunk_blocks flint (replica 0) ''a'' (CHR 0x04 # two_blocks) None (disk []) =
     (Inr [], table_a ''abcd'')"
  by (simp add: process_changeset_chunk_blocks_def flint_uint32 write_and_clear_changes_def
      replica_def table_a_created table_a_loop table_a_sync)

lemma two_blocks_pairs:
  "block_pairs flint 4 two_blocks [] = [(0, ''0001''), (0, ''abcd'')]"
  by (simp add: two_blocks_def block_pairs.simps [of _ _ "_ # _"] block_pairs.simps [of _ _ "[]"]
      flint_uint32)

lemma blocks_chunk_content:
  assumes "process_changeset_chunk_blocks x r t buf cfd w = (Inr b, w')"
    and "cfd \<noteq> Some (db_path r t)"
  shows "\<exists>bs ptr. F_unpack_uint x 32 buf = Some (bs, ptr) \<and>
           content w' (db_path r t) =
             write_blocks bs (content w (db_path r t)) (block_pairs x bs ptr (conn w)) \<and>
           (\<forall>(i, d) \<in> set (block_pairs x bs ptr (conn w)).
              length d = bs \<and>
              Some (take bs (drop (i * bs) (content w' (db_path r t)))) =
                map_of (rev (block_pairs x bs ptr (conn w))) i)"
  using assms(1)
proof (rule process_changeset_chunk_blocksE)
  fix bs ptr buf1 w1 w3 w4
  assume size: "F_unpack_uint x 32 buf = Some (bs, ptr)"
    and wc: "write_and_clear_changes cfd buf (length buf - length ptr) w = (Inr buf1, w1)"
    and opn: "open_db_file (db_path r t) w1 = (Inr (), w3)"
    and loop: "blocks_loop x (db_path r t) cfd bs buf1 w3 = (Inr b, w4)"
    and sync: "io_sync (db_path r t) w4 = (Inr (), w')"
  let ?pairs = "block_pairs x bs ptr (conn w)"
  from wc size assms(2) have "buf1 = ptr" "conn w1 = conn w"
    "files w1 (db_path r t) = files w (db_path r t)"
    by (auto dest!: write_and_clear_changes_eff simp: drop_to_suffix)
  with opn have start: "buf1 = ptr" "conn w3 = conn w"
    "content w3 (db_path r t) = content w (db_path r t)"
    by (auto dest: open_db_file_Inr open_db_file_conn simp: content_def)
  from sync have "content w' (db_path r t) = content w4 (db_path r t)"
    by (auto dest: io_sync_files simp: content_def)
  with blocks_loop_pairs [OF loop assms(2)] start
  have written: "content w' (db_path r t) = write_blocks bs (content w (db_path r t)) ?pairs"
    and sizes: "\<forall>(i, d) \<in> set ?pairs. length d = bs"
    by auto
  from write_blocks_last_wins [OF sizes, of "content w (db_path r t)"] written sizes
  have "\<forall>(i, d) \<in> set ?pairs. length d = bs \<and>
      Some (take bs (drop (i * bs) (content w' (db_path r t)))) = map_of (rev ?pairs) i"
    by auto
  with size written show ?thesis
    by blast
qed

subsection \<open>The Archival Sink\<close>

lemma digit_in: "n < 10 \<Longrightarrow> is_digit (digit n)"
proof -
  assume "n < 10"
  then have "n \<in> {0, 1, 2, 3, 4, 5, 6, 7, 8, 9}"
    by auto
  then show ?thesis
    by (auto simp: digit_def is_digit_def)
qed

lemma str_last: "str n \<noteq> [] \<and> is_digit (last (str n))"
proof (induction n rule: str.induct)
  case (1 n)
  show ?case
    by (subst (1 2) str.simps) (simp add: digit_in)
qed

lemma last_changes_path: "is_digit (last (changes_path r s))"
  using str_last [of s] by (simp add: changes_path_def)

lemma changes_path_not_table: "\<not> is_table_file r (changes_path r s)"
proof
  assume "is_table_file r (changes_path r s)"
  then obtain t where "changes_path r s = tmp_path r t \<or>
      changes_path r s = base_path r t (CHR ''A'') \<or>
      changes_path r s = base_path r t (CHR ''B'') \<or> changes_path r s = db_path r t"
    by (auto simp: is_table_file_def)
  then have "last (changes_path r s) \<in> {CHR ''p'', CHR ''A'', CHR ''B''}"
    by (auto simp: tmp_path_def base_path_def db_path_def)
  with last_changes_path [of r s] show False
    by (auto simp: is_digit_def)
qed

lemma restore_simps [simp]:
  "conn (restore a c v) = conn v" "faults (restore a c v) = faults v"
  "lock_failure (restore a c v) = lock_failure v"
  "q \<noteq> a \<Longrightarrow> files (restore a c v) q = files v q"
  "q \<noteq> a \<Longrightarrow> content (restore a c v) q = content v q"
  by (simp_all add: restore_def content_def)

lemma restore_update [simp]:
  "q \<noteq> a \<Longrightarrow> (restore a c v)\<lparr>files := (files (restore a c v))(q := y)\<rparr> =
     restore a c (v\<lparr>files := (files v)(q := y)\<rparr>)"
  by (simp add: restore_def fun_upd_twist)

lemma restore_archive [simp]: "restore a c (v\<lparr>files := (files v)(a := y)\<rparr>) = restore a c v"
  by (simp add: restore_def)

lemma next_fault_restore:
  "next_fault q (restore a c v) = (fst (next_fault q v), restore a c (snd (next_fault q v)))"
  by (simp add: next_fault_def restore_def split: list.splits)

lemma syscall_restore:
  assumes "\<And>v. eff (restore a c v) = (fst (eff v), restore a c (snd (eff v)))"
  shows "syscall q eff (restore a c v) = (fst (syscall q eff v), restore a c (snd (syscall q eff v)))"
  by (cases "next_fault q v")
     (auto simp: syscall_def next_fault_restore assms split: fault.splits)

lemma syscall_faults:
  assumes "\<And>v. faults (snd (eff v)) = faults v" and "q \<noteq> a"
  shows "faults (snd (syscall q eff v)) a = faults v a"
  using faults_next_fault [of a q v] assms
  by (cases "next_fault q v") (auto simp: syscall_def split: fault.splits)

lemma open_creat_trunc_sim:
  assumes "open_creat_trunc q v = (r, v')" and "q \<noteq> a"
  shows "open_creat_trunc q (restore a c v) = (r, restore a c v') \<and> faults v' a = faults v a"
proof -
  have "open_creat_trunc q (restore a c v) = (fst (open_creat_trunc q v), restore a c (snd (open_creat_trunc q v)))"
    unfolding open_creat_trunc_def using assms(2) by (intro syscall_restore) (simp)
  moreover have "faults (snd (open_creat_trunc q v)) a = faults v a"
    unfolding open_creat_trunc_def using assms(2) by (intro syscall_faults) (simp_all)
  ultimately show ?thesis
    using assms(1) by simp
qed

lemma open_wronly_sim:
  assumes "open_wronly q v = (r, v')" and "q \<noteq> a"
  shows "open_wronly q (restore a c v) = (r, restore a c v') \<and> faults v' a = faults v a"
proof -
  have "open_wronly q (restore a c v) = (fst (open_wronly q v), restore a c (snd (open_wronly q v)))"
    unfolding open_wronly_def using assms(2) by (intro syscall_restore) (simp)
  moreover have "faults (snd (open_wronly q v)) a = faults v a"
    unfolding open_wronly_def using assms(2) by (intro syscall_faults) (simp_all)
  ultimately show ?thesis
    using assms(1) by simp
qed

lemma write_fd_sim:
  assumes "write_fd q d v = (r, v')" and "q \<noteq> a"
  shows "write_fd q d (restore a c v) = (r, restore a c v') \<and> faults v' a = faults v a"
proof -
  have "write_fd q d (restore a c v) = (fst (write_fd q d v), restore a c (snd (write_fd q d v)))"
    unfolding write_fd_def using assms(2) by (intro syscall_restore) (simp)
  moreover have "faults (snd (write_fd q d v)) a = faults v a"
    unfolding write_fd_def using assms(2) by (intro syscall_faults) (simp_all)
  ultimately show ?thesis
    using assms(1) by simp
qed

lemma write_at_sim:
  assumes "write_at q off d v = (r, v')" and "q \<noteq> a"
  shows "write_at q off d (restore a c v) = (r, restore a c v') \<and> faults v' a = faults v a"
proof -
  have "write_at q off d (restore a c v) = (fst (write_at q off d v), restore a c (snd (write_at q off d v)))"
    unfolding write_at_def using assms(2) by (intro syscall_restore) (simp)
  moreover have "faults (snd (write_at q off d v)) a = faults v a"
    unfolding write_at_def using assms(2) by (intro syscall_faults) (simp_all)
  ultimately show ?thesis
    using assms(1) by simp
qed

lemma fsync_sim:
  assumes "fsync q v = (r, v')" and "q \<noteq> a"
  shows "fsync q (restore a c v) = (r, restore a c v') \<and> faults v' a = faults v a"
proof -
  have "fsync q (restore a c v) = (fst (fsync q v), restore a c (snd (fsync q v)))"
    unfolding fsync_def using assms(2) by (intro syscall_restore) (simp)
  moreover have "faults (snd (fsync q v)) a = faults v a"
    unfolding fsync_def using assms(2) by (intro syscall_faults) (simp_all)
  ultimately show ?thesis
    using assms(1) by simp
qed

lemma unlink_sim:
  assumes "unlink q v = (r, v')" and "q \<noteq> a"
  shows "unlink q (restore a c v) = (r, restore a c v') \<and> faults v' a = faults v a"
proof -
  have "unlink q (restore a c v) = (fst (unlink q v), restore a c (snd (unlink q v)))"
    unfolding unlink_def using assms(2) by (intro syscall_restore) (simp split: option.splits)
  moreover have "faults (snd (unlink q v)) a = faults v a"
    unfolding unlink_def using assms(2) by (intro syscall_faults) (simp_all split: option.splits)
  ultimately show ?thesis
    using assms(1) by simp
qed

lemma rename_sim:
  assumes "rename p q v = (r, v')" and "p \<noteq> a" and "q \<noteq> a"
  shows "rename p q (restore a c v) = (r, restore a c v') \<and> faults v' a = faults v a"
proof -
  have "rename p q (restore a c v) = (fst (rename p q v), restore a c (snd (rename p q v)))"
    unfolding rename_def using assms(2,3)
    by (intro syscall_restore) (simp add: restore_def fun_upd_twist split: option.splits)
  moreover have "faults (snd (rename p q v)) a = faults v a"
    unfolding rename_def using assms(2) by (intro syscall_faults) (simp_all split: option.splits)
  ultimately show ?thesis
    using assms(1) by simp
qed

lemma io_write_sim:
  assumes "io_write q d v = (r, v')" and "q \<noteq> a"
  shows "io_write q d (restore a c v) = (r, restore a c v') \<and> faults v' a = faults v a"
  using assms write_fd_sim [of q d v _ _ a c]
  by (cases "write_fd q d v") (auto simp: io_write_def split: option.splits)

lemma io_write_at_sim:
  assumes "io_write_at q off d v = (r, v')" and "q \<noteq> a"
  shows "io_write_at q off d (restore a c v) = (r, restore a c v') \<and> faults v' a = faults v a"
  using assms write_at_sim [of q off d v _ _ a c]
  by (cases "write_at q off d v") (auto simp: io_write_at_def split: option.splits)

lemma io_sync_sim:
  assumes "io_sync q v = (r, v')" and "q \<noteq> a"
  shows "io_sync q (restore a c v) = (r, restore a c v') \<and> faults v' a = faults v a"
  using assms fsync_sim [of q v _ _ a c]
  by (cases "fsync q v") (auto simp: io_sync_def split: option.splits)

lemma get_message_chunk_sim:
  assumes "get_message_chunk buf n v = (r, v')"
  shows "get_message_chunk buf n (restore a c v) = (r, restore a c v') \<and> faults v' a = faults v a"
  using assms by (auto simp: get_message_chunk_def restore_def split: prod.splits)

lemma simI:
  assumes "\<And>v r v'. (nf \<longrightarrow> faults v a = []) \<Longrightarrow> f v = (r, v') \<Longrightarrow>
     g (restore a c v) = (r, restore a c v') \<and> (nf \<longrightarrow> faults v' a = [])"
  shows "sim a c nf f g"
  using assms by (auto simp: sim_def)

lemma simD:
  "sim a c nf f g \<Longrightarrow> (nf \<longrightarrow> faults v a = []) \<Longrightarrow> f v = (r, v') \<Longrightarrow>
     g (restore a c v) = (r, restore a c v') \<and> (nf \<longrightarrow> faults v' a = [])"
  by (auto simp: sim_def)

lemma sim_ret: "sim a c nf (\<lambda>v. (r, v)) (\<lambda>v. (r, v))"
  by (simp add: sim_def)

lemma sim_bind:
  assumes "sim a c nf m m'" and "\<And>r. sim a c nf (k r) (k' r)"
  shows "sim a c nf (\<lambda>v. case m v of (r, w) \<Rightarrow> k r w) (\<lambda>v. case m' v of (r, w) \<Rightarrow> k' r w)"
proof (rule simI)
  fix v r v'
  assume nf: "nf \<longrightarrow> faults v a = []" and run: "(case m v of (r, w) \<Rightarrow> k r w) = (r, v')"
  obtain r1 w1 where m: "m v = (r1, w1)"
    by (cases "m v")
  from simD [OF assms(1) nf m]
  have "m' (restore a c v) = (r1, restore a c w1)" "nf \<longrightarrow> faults w1 a = []"
    by simp_all
  moreover from run m have "k r1 w1 = (r, v')"
    by simp
  ultimately show "(case m' (restore a c v) of (r, w) \<Rightarrow> k' r w) = (r, restore a c v') \<and>
      (nf \<longrightarrow> faults v' a = [])"
    using simD [OF assms(2) [of r1], of w1 r v'] by simp
qed

lemma sim_sum:
  assumes "\<And>e. sim a c nf (f e) (f' e)" and "\<And>y. sim a c nf (g y) (g' y)"
  shows "sim a c nf (\<lambda>v. case r of Inl e \<Rightarrow> f e v | Inr y \<Rightarrow> g y v)
           (\<lambda>v. case r of Inl e \<Rightarrow> f' e v | Inr y \<Rightarrow> g' y v)"
  using assms by (cases r) simp_all

lemma sim_option:
  assumes "sim a c nf f f'" and "\<And>y. sim a c nf (g y) (g' y)"
  shows "sim a c nf (\<lambda>v. case r of None \<Rightarrow> f v | Some y \<Rightarrow> g y v)
           (\<lambda>v. case r of None \<Rightarrow> f' v | Some y \<Rightarrow> g' y v)"
  using assms by (cases r) simp_all

lemma sim_prod:
  assumes "\<And>x y. sim a c nf (g x y) (g' x y)"
  shows "sim a c nf (\<lambda>v. case p of (x, y) \<Rightarrow> g x y v) (\<lambda>v. case p of (x, y) \<Rightarrow> g' x y v)"
  using assms by (cases p) simp_all

lemma sim_list:
  assumes "sim a c nf f f'" and "\<And>y ys. sim a c nf (g y ys) (g' y ys)"
  shows "sim a c nf (\<lambda>v. case l of [] \<Rightarrow> f v | y # ys \<Rightarrow> g y ys v)
           (\<lambda>v. case l of [] \<Rightarrow> f' v | y # ys \<Rightarrow> g' y ys v)"
  using assms by (cases l) simp_all

lemma sim_if:
  assumes "b \<Longrightarrow> sim a c nf f f'" and "\<not> b \<Longrightarrow> sim a c nf g g'"
  shows "sim a c nf (\<lambda>v. if b then f v else g v) (\<lambda>v. if b then f' v else g' v)"
  using assms by (cases b) simp_all

lemma sim_get_message_chunk: "sim a c nf (get_message_chunk buf n) (get_message_chunk buf n)"
  by (rule simI) (auto dest: get_message_chunk_sim [where a = a and c = c])

lemma sim_write_and_clear_changes:
  "cfd = None \<or> nf \<and> cfd = Some a \<Longrightarrow>
     sim a c nf (write_and_clear_changes cfd buf n) (write_and_clear_changes None buf n)"
  by (rule simI) (auto simp: write_and_clear_changes_def io_write_def write_fd_def syscall_no_fault)

lemma sim_io_write_at: "q \<noteq> a \<Longrightarrow> sim a c nf (io_write_at q off d) (io_write_at q off d)"
  by (rule simI) (auto dest: io_write_at_sim [where a = a and c = c])

lemma sim_io_write: "q \<noteq> a \<Longrightarrow> sim a c nf (io_write q d) (io_write q d)"
  by (rule simI) (auto dest: io_write_sim [where a = a and c = c])

lemma sim_io_sync: "q \<noteq> a \<Longrightarrow> sim a c nf (io_sync q) (io_sync q)"
  by (rule simI) (auto dest: io_sync_sim [where a = a and c = c])

lemma sim_open_creat_trunc: "q \<noteq> a \<Longrightarrow> sim a c nf (open_creat_trunc q) (open_creat_trunc q)"
  by (rule simI) (auto dest: open_creat_trunc_sim [where a = a and c = c])

lemma sim_open_wronly: "q \<noteq> a \<Longrightarrow> sim a c nf (open_wronly q) (open_wronly q)"
  by (rule simI) (auto dest: open_wronly_sim [where a = a and c = c])

lemma sim_rename: "p \<noteq> a \<Longrightarrow> q \<noteq> a \<Longrightarrow> sim a c nf (rename p q) (rename p q)"
  by (rule simI) (auto dest: rename_sim [where a = a and c = c])

lemma sim_unlink: "q \<noteq> a \<Longrightarrow> sim a c nf (unlink q) (unlink q)"
  by (rule simI) (auto dest: unlink_sim [where a = a and c = c])

lemmas sim_steps = sim_bind sim_sum sim_option sim_prod sim_list sim_if sim_ret
  sim_get_message_chunk sim_write_and_clear_changes sim_io_write_at sim_io_write sim_io_sync
  sim_open_creat_trunc sim_open_wronly sim_rename sim_unlink

lemma sim_blocks_body:
  assumes "cfd = None \<or> nf \<and> cfd = Some a" and "fd \<noteq> a"
  shows "sim a c nf (blocks_body x fd cfd bs buf) (blocks_body x fd None bs buf)"
  unfolding blocks_body_def [abs_def] Let_def
  by (intro sim_steps assms) 

lemma not_table_file:
  assumes "\<not> is_table_file r a"
  shows "db_dir r @ ''/'' @ t @ ''tmp'' \<noteq> a" and "db_dir r @ ''/'' @ t @ ''.DB'' \<noteq> a"
    and "letter = CHR ''A'' \<or> letter = CHR ''B'' \<Longrightarrow> db_dir r @ ''/'' @ t @ ''.base'' @ [letter] \<noteq> a"
  using assms by (auto simp: is_table_file_def tmp_path_def base_path_def db_path_def)

lemma sim_process_changeset_chunk_base:
  assumes "cfd = None \<or> nf \<and> cfd = Some a" and "\<not> is_table_file r a" and "db_dir r' = db_dir r"
  shows "sim a c nf (process_changeset_chunk_base x r t buf cfd)
           (process_changeset_chunk_base x r' t buf None)"
  unfolding process_changeset_chunk_base_def [abs_def] Let_def assms(3)
  by (intro sim_steps assms(1) not_table_file [OF assms(2)]) auto

lemma sim_if_exists:
  assumes "q \<noteq> a" and "sim a c nf f f'" and "sim a c nf g g'"
  shows "sim a c nf (\<lambda>v. if file_exists q v then f v else g v)
           (\<lambda>v. if file_exists q v then f' v else g' v)"
proof (rule simI)
  fix v r v'
  assume "nf \<longrightarrow> faults v a = []" and "(if file_exists q v then f v else g v) = (r, v')"
  with assms(1) simD [OF assms(2), of v r v'] simD [OF assms(3), of v r v']
  show "(if file_exists q (restore a c v) then f' (restore a c v) else g' (restore a c v)) =
      (r, restore a c v') \<and> (nf \<longrightarrow> faults v' a = [])"
    by (auto simp: file_exists_def split: if_split_asm)
qed

lemma sim_open_db_file: "q \<noteq> a \<Longrightarrow> sim a c nf (open_db_file q) (open_db_file q)"
  unfolding open_db_file_def [abs_def]
  by (intro sim_steps sim_if_exists)

lemma blocks_loop_Inl:
  "blocks_body x fd cfd bs buf w = (Inl e, w') \<Longrightarrow> blocks_loop x fd cfd bs buf w = (Inl e, w')"
  by (simp add: blocks_loop.simps)

lemma sim_blocks_loop:
  assumes "cfd = None \<or> nf \<and> cfd = Some a" and "fd \<noteq> a"
  shows "sim a c nf (blocks_loop x fd cfd bs buf) (blocks_loop x fd None bs buf)"
proof (rule simI)
  fix v r v'
  assume nf: "nf \<longrightarrow> faults v a = []" and run: "blocks_loop x fd cfd bs buf v = (r, v')"
  note body = simD [OF sim_blocks_body [OF assms, of c x bs]]
  from run nf show "blocks_loop x fd None bs buf (restore a c v) = (r, restore a c v') \<and>
      (nf \<longrightarrow> faults v' a = [])"
  proof (induction rule: blocks_loop_induct)
    case (Inl buf v e)
    with body [OF Inl(3) Inl(1)] show ?case
      by (simp add: blocks_loop_Inl)
  next
    case (Break buf v b)
    with body [OF Break(3) Break(1)] show ?case
      by (simp add: blocks_loop_Break)
  next
    case (Again buf v buf1 v1)
    from body [OF Again(4) Again(1)] Again(3) show ?case
      by (simp add: blocks_loop_Again)
  qed
qed

lemma sim_process_changeset_chunk_blocks:
  assumes "cfd = None \<or> nf \<and> cfd = Some a" and "\<not> is_table_file r a" and "db_dir r' = db_dir r"
  shows "sim a c nf (process_changeset_chunk_blocks x r t buf cfd)
           (process_changeset_chunk_blocks x r' t buf None)"
  unfolding process_changeset_chunk_blocks_def [abs_def] Let_def assms(3)
  by (intro sim_steps sim_open_db_file sim_blocks_loop assms(1) not_table_file [OF assms(2)])

lemma sim_chunks_body:
  assumes "cfd = None \<or> nf \<and> cfd = Some a" and "\<not> is_table_file r a" and "db_dir r' = db_dir r"
  shows "sim a c nf (chunks_body x r cfd buf) (chunks_body x r' None buf)"
  unfolding chunks_body_def [abs_def]
  by (intro sim_steps sim_process_changeset_chunk_base sim_process_changeset_chunk_blocks assms)

lemma chunks_loop_induct [consumes 1, case_names Inl Break Again]:
  assumes run: "chunks_loop x r cfd buf w = (res, w')"
    and err: "\<And>buf w e. chunks_body x r cfd buf w = (Inl e, w') \<Longrightarrow> res = Inl e \<Longrightarrow> P buf w"
    and brk: "\<And>buf w bp. chunks_body x r cfd buf w = (Inr (Break bp), w') \<Longrightarrow> res = Inr bp \<Longrightarrow>
                P buf w"
    and again: "\<And>buf w buf1 w1. chunks_body x r cfd buf w = (Inr (Again buf1), w1) \<Longrightarrow>
                chunks_loop x r cfd buf1 w1 = (res, w') \<Longrightarrow> P buf1 w1 \<Longrightarrow> P buf w"
  shows "P buf w"
  using assms
proof (induction x r cfd buf w rule: chunks_loop.induct)
  case (1 x r cfd buf w)
  show ?case
  proof (cases "chunks_body x r cfd buf w")
    case (Pair rs w1)
    show ?thesis
    proof (cases rs)
      case (Inl e)
      with Pair "1.prems"(1) show ?thesis
        by (auto simp: chunks_loop.simps intro: "1.prems"(2))
    next
      case (Inr ps)
      show ?thesis
      proof (cases ps)
        case (Break b)
        with Pair Inr "1.prems"(1) show ?thesis
          by (auto simp: chunks_loop.simps intro: "1.prems"(3))
      next
        case (Again b1)
        with Pair Inr "1.prems"(1) have l: "chunks_loop x r cfd b1 w1 = (res, w')"
          by (simp add: chunks_loop.simps)
        have "P b1 w1"
          by (rule "1.IH" [OF Pair [symmetric] Inr Again l "1.prems"(2-4)])
        with Pair Inr Again l show ?thesis
          by (auto intro: "1.prems"(4))
      qed
    qed
  qed
qed

lemma sim_chunks_loop:
  assumes "cfd = None \<or> nf \<and> cfd = Some a" and "\<not> is_table_file r a" and "db_dir r' = db_dir r"
  shows "sim a c nf (chunks_loop x r cfd buf) (chunks_loop x r' None buf)"
proof (rule simI)
  fix v res v'
  assume nf: "nf \<longrightarrow> faults v a = []" and run: "chunks_loop x r cfd buf v = (res, v')"
  note body = simD [OF sim_chunks_body [OF assms, of c x]]
  from run nf show "chunks_loop x r' None buf (restore a c v) = (res, restore a c v') \<and>
      (nf \<longrightarrow> faults v' a = [])"
  proof (induction rule: chunks_loop_induct)
    case (Inl buf v e)
    with body [OF Inl(3) Inl(1)] show ?case
      by (simp add: chunks_loop_Inl)
  next
    case (Break buf v b)
    with body [OF Break(3) Break(1)] show ?case
      by (simp add: chunks_loop_Break)
  next
    case (Again buf v buf1 v1)
    from body [OF Again(4) Again(1)] Again(3) show ?case
      by (simp add: chunks_loop_Again)
  qed
qed

lemma sim_after_start:
  assumes "cfd = None \<or> nf \<and> cfd = Some a" and "\<not> is_table_file r a" and "db_dir r' = db_dir r"
  shows "sim a c nf
     (\<lambda>w3. case chunks_loop x r cfd buf' w3 of
        (Inl e, w4) \<Rightarrow> (Inl e, w4)
      | (Inr (buf4, ptr4), w4) \<Rightarrow>
        (case changeset_footer x endrev ptr4 of
           Inl e \<Rightarrow> (Inl e, w4)
         | Inr reqrev \<Rightarrow>
           (case write_and_clear_changes cfd buf4 (length buf4) w4 of
              (Inl e, w5) \<Rightarrow> (Inl e, w5)
            | (Inr buf5, w5) \<Rightarrow> (Inr (pack_uint x reqrev), w5))))
     (\<lambda>w3. case chunks_loop x r' None buf' w3 of
        (Inl e, w4) \<Rightarrow> (Inl e, w4)
      | (Inr (buf4, ptr4), w4) \<Rightarrow>
        (case changeset_footer x endrev ptr4 of
           Inl e \<Rightarrow> (Inl e, w4)
         | Inr reqrev \<Rightarrow>
           (case write_and_clear_changes None buf4 (length buf4) w4 of
              (Inl e, w5) \<Rightarrow> (Inl e, w5)
            | (Inr buf5, w5) \<Rightarrow> (Inr (pack_uint x reqrev), w5))))"
  by (intro sim_steps sim_chunks_loop assms)

lemma create_changeset_file_quiet:
  "faults w (d @ ''/'' @ f) = [] \<Longrightarrow>
   create_changeset_file d f w = (Inr (d @ ''/'' @ f), w\<lparr>files := (files w)(d @ ''/'' @ f \<mapsto> [])\<rparr>)"
  by (rule create_changeset_file_no_fault)

lemma changeset_start_sim:
  assumes run: "changeset_start x r orn valid w = (res, w3)"
    and dir: "db_dir r' = db_dir r" and off: "\<not> 0 < max_changesets r'"
    and quiet: "0 < max_changesets r \<longrightarrow> faults w a = []"
    and a: "0 < max_changesets r \<longrightarrow> (\<forall>buf w1 s e ptr.
         get_message_chunk [] (REASONABLE_CHANGESET_SIZE x) w = (Inr buf, w1) \<longrightarrow>
         changeset_header x buf = Inr (s, e, ptr) \<longrightarrow> a = changes_path r s)"
  shows "changeset_start x r' orn valid (restore a c w) = (no_fd res, restore a c w3) \<and>
         (0 < max_changesets r \<longrightarrow> faults w3 a = []) \<and>
         (\<forall>e cfd buf. res = Inr (e, cfd, buf) \<longrightarrow> cfd = None \<or> 0 < max_changesets r \<and> cfd = Some a)"
proof (cases "lock_failure w")
  case (Some explanation)
  with run quiet show ?thesis
    by (auto simp: changeset_start_def no_fd_def)
next
  case None
  obtain r1 w1 where c: "get_message_chunk [] (REASONABLE_CHANGESET_SIZE x) w = (r1, w1)"
    by (cases "get_message_chunk [] (REASONABLE_CHANGESET_SIZE x) w")
  note c' = get_message_chunk_sim [OF c, of a c]
  show ?thesis
  proof (cases r1)
    case (Inl e)
    with None c c' run quiet show ?thesis
      by (auto simp: changeset_start_def no_fd_def)
  next
    case (Inr buf)
    show ?thesis
    proof (cases "changeset_header x buf")
      case (Inl e)
      with None c c' Inr run quiet show ?thesis
        by (auto simp: changeset_start_def no_fd_def)
    next
      case h: (Inr hdr)
      obtain s e ptr where hd: "hdr = (s, e, ptr)"
        by (cases hdr)
      show ?thesis
      proof (cases "0 < max_changesets r")
        case False
        with None c c' Inr h hd run off show ?thesis
          by (auto simp: changeset_start_def no_fd_def Let_def write_and_clear_changes_def
              split: if_split_asm)
      next
        case True
        with a c Inr h hd have "a = changes_path r s"
          by blast
        then have a': "a = db_dir r @ ''/'' @ ''changes'' @ str s"
          by (simp add: changes_path_def)
        from True quiet c' have "faults w1 (db_dir r @ ''/'' @ ''changes'' @ str s) = []"
          by (simp add: a')
        note cr = create_changeset_file_quiet [OF this]
        define w2 where "w2 = w1\<lparr>files := (files w1)(a \<mapsto> [])\<rparr>"
        define n where "n = length buf - length ptr + 1"
        have q: "faults w2 a = []"
          using True quiet c' by (simp add: w2_def)
        have w2: "restore a c w2 = restore a c w1"
          by (simp add: w2_def)
        have B: "changeset_start x r orn valid w =
          (if valid \<and> s \<noteq> orn
           then (Inl (NetworkError ''Changeset supplied is for wrong revision number''), w2)
           else if of_char (hd ptr) \<noteq> (0::nat)
           then (Inl (NetworkError (''Unsupported changeset type: '' @ str (of_char (hd ptr)))), w2)
           else (case write_and_clear_changes (Some a) buf n w2 of
                   (Inl e, w3) \<Rightarrow> (Inl e, w3)
                 | (Inr buf', w3) \<Rightarrow> (Inr (e, Some a, buf'), w3)))"
          unfolding w2_def n_def a' using None c Inr h hd True cr
          by (simp add: changeset_start_def Let_def split: prod.split sum.split)
        have A: "changeset_start x r' orn valid (restore a c w) =
          (if valid \<and> s \<noteq> orn
           then (Inl (NetworkError ''Changeset supplied is for wrong revision number''),
                 restore a c w1)
           else if of_char (hd ptr) \<noteq> (0::nat)
           then (Inl (NetworkError (''Unsupported changeset type: '' @ str (of_char (hd ptr)))),
                 restore a c w1)
           else (case write_and_clear_changes None buf n (restore a c w1) of
                   (Inl e, w3) \<Rightarrow> (Inl e, w3)
                 | (Inr buf', w3) \<Rightarrow> (Inr (e, None, buf'), w3)))"
          using None c' Inr h hd off
          by (simp add: changeset_start_def Let_def n_def)
        show ?thesis
        proof (cases "(valid \<and> s \<noteq> orn) \<or> of_char (hd ptr) \<noteq> (0::nat)")
          case True
          with A B run q w2 show ?thesis
            by (auto simp: no_fd_def split: if_split_asm)
        next
          case False
          obtain rr v where wc: "write_and_clear_changes (Some a) buf n w2 = (rr, v)"
            by (cases "write_and_clear_changes (Some a) buf n w2")
          have "sim a c True (write_and_clear_changes (Some a) buf n)
                  (write_and_clear_changes None buf n)"
            by (rule sim_write_and_clear_changes) simp
          from simD [OF this _ wc] q w2
          have wc': "write_and_clear_changes None buf n (restore a c w1) = (rr, restore a c v)"
            and qv: "faults v a = []"
            by simp_all
          from False A B run wc wc' qv \<open>0 < max_changesets r\<close> show ?thesis
            by (auto simp: no_fd_def split: sum.splits)
        qed
      qed
    qed
  qed
qed

lemma apply_changeset_from_conn_sim:
  assumes run: "apply_changeset_from_conn x r orn valid w = (res, w')"
    and dir: "db_dir r' = db_dir r" and off: "\<not> 0 < max_changesets r'"
    and quiet: "0 < max_changesets r \<longrightarrow> faults w a = []"
    and a: "0 < max_changesets r \<longrightarrow> (\<forall>buf w1 s e ptr.
         get_message_chunk [] (REASONABLE_CHANGESET_SIZE x) w = (Inr buf, w1) \<longrightarrow>
         changeset_header x buf = Inr (s, e, ptr) \<longrightarrow> a = changes_path r s)"
    and nt: "\<not> is_table_file r a"
  shows "apply_changeset_from_conn x r' orn valid (restore a c w) = (res, restore a c w')"
proof -
  obtain rs w3 where st: "changeset_start x r orn valid w = (rs, w3)"
    by (cases "changeset_start x r orn valid w")
  from changeset_start_sim [OF st dir off quiet a, where c = c]
  have st': "changeset_start x r' orn valid (restore a c w) = (no_fd rs, restore a c w3)"
    and q3: "0 < max_changesets r \<longrightarrow> faults w3 a = []"
    and fd: "\<And>e cfd buf. rs = Inr (e, cfd, buf) \<Longrightarrow>
               cfd = None \<or> 0 < max_changesets r \<and> cfd = Some a"
    by blast+
  show ?thesis
  proof (cases rs)
    case (Inl e)
    with run st st' show ?thesis
      by (simp add: apply_changeset_from_conn_loop no_fd_def)
  next
    case (Inr t)
    obtain e cfd buf' where t: "t = (e, cfd, buf')"
      by (cases t)
    note s = sim_after_start [OF fd [OF Inr [unfolded t]] nt dir, where c = c and x = x and buf' = buf' and endrev = e]
    from run st Inr t have "(case chunks_loop x r cfd buf' w3 of
        (Inl e, w4) \<Rightarrow> (Inl e, w4)
      | (Inr (buf4, ptr4), w4) \<Rightarrow>
        (case changeset_footer x e ptr4 of
           Inl e \<Rightarrow> (Inl e, w4)
         | Inr reqrev \<Rightarrow>
           (case write_and_clear_changes cfd buf4 (length buf4) w4 of
              (Inl e, w5) \<Rightarrow> (Inl e, w5)
            | (Inr buf5, w5) \<Rightarrow> (Inr (pack_uint x reqrev), w5)))) = (res, w')"
      by (simp add: apply_changeset_from_conn_loop)
    from simD [OF s q3 this] st' Inr t show ?thesis
      by (simp add: apply_changeset_from_conn_loop no_fd_def)
  qed
qed

lemma trail_frame:
  "files v' a = files v a \<Longrightarrow> conn v' = conn v \<Longrightarrow> trail a buf v' = trail a buf v"
  by (simp add: trail_def content_def)

lemma trail_get_message_chunk:
  "get_message_chunk buf n v = (Inr b, v') \<Longrightarrow> trail a b v' = trail a buf v"
  by (frule get_message_chunk_pending, drule get_message_chunk_files)
     (simp add: trail_def content_def)

lemma trail_write_and_clear_changes:
  assumes "write_and_clear_changes (Some a) buf n v = (Inr b, v')"
  shows "trail a b v' = trail a buf v" and "files v' a \<noteq> None"
proof -
  from assms obtain u where w: "io_write a (take n buf) v = (Inr u, v')" and b: "b = drop n buf"
    by (auto simp: write_and_clear_changes_def split: prod.split_asm sum.split_asm)
  from io_write_Inr [OF w] io_write_conn [OF w] b
  show "trail a b v' = trail a buf v" and "files v' a \<noteq> None"
    by (simp_all add: trail_def content_def)
qed

lemma trail_open_creat_trunc:
  "open_creat_trunc q v = (res, v') \<Longrightarrow> q \<noteq> a \<Longrightarrow> trail a buf v' = trail a buf v"
  by (frule open_creat_trunc_conn, drule open_creat_trunc_files) (rule trail_frame, simp_all)

lemma trail_io_write:
  "io_write q d v = (res, v') \<Longrightarrow> q \<noteq> a \<Longrightarrow> trail a buf v' = trail a buf v"
  by (frule io_write_conn, drule io_write_files) (rule trail_frame, simp_all)

lemma trail_io_write_at:
  "io_write_at q off d v = (res, v') \<Longrightarrow> q \<noteq> a \<Longrightarrow> trail a buf v' = trail a buf v"
  by (frule io_write_at_conn, drule io_write_at_files) (rule trail_frame, simp_all)

lemma trail_io_sync:
  "io_sync q v = (res, v') \<Longrightarrow> trail a buf v' = trail a buf v"
  by (frule io_sync_conn, drule io_sync_files) (rule trail_frame, simp_all)

lemma trail_rename:
  "rename p q v = (res, v') \<Longrightarrow> p \<noteq> a \<Longrightarrow> q \<noteq> a \<Longrightarrow> trail a buf v' = trail a buf v"
  by (frule rename_conn, drule rename_files) (rule trail_frame, simp_all)

lemma trail_unlink:
  "unlink q v = (res, v') \<Longrightarrow> q \<noteq> a \<Longrightarrow> trail a buf v' = trail a buf v"
  by (frule unlink_conn, drule unlink_files) (rule trail_frame, simp_all)

lemma trail_open_db_file:
  "open_db_file q v = (Inr u, v') \<Longrightarrow> q \<noteq> a \<Longrightarrow> trail a buf v' = trail a buf v"
  by (frule open_db_file_conn, drule open_db_file_Inr) (rule trail_frame, simp_all)

lemma trail_process_changeset_chunk_base:
  assumes run: "process_changeset_chunk_base x r t buf (Some a) v = (Inr b, v')"
    and nt: "\<not> is_table_file r a"
  shows "trail a b v' = trail a buf v"
proof (cases "base_file_ready x r t buf (Some a) v")
  case (Pair rs w6)
  show ?thesis
  proof (cases rs)
    case (Inl e)
    with Pair run base_file_ready_Inl [of x r t buf "Some a" v e w6] show ?thesis
      by simp
  next
    case (Inr lb)
    obtain letter buf3 where lb: "lb = (letter, buf3)"
      by (cases lb)
    from Pair Inr lb have rdy: "base_file_ready x r t buf (Some a) v = (Inr (letter, buf3), w6)"
      by simp
    from nt have ne: "tmp_path r t \<noteq> a" "base_path r t (CHR ''A'') \<noteq> a"
      "base_path r t (CHR ''B'') \<noteq> a"
      by (auto simp: is_table_file_def)
    from rdy obtain ptr base_size ptr' buf1 w1 buf2 w2 w3 w4 w5 where
      "buf = letter # ptr" and l: "letter = CHR ''A'' \<or> letter = CHR ''B''" and "ptr \<noteq> []"
      and "F_unpack_uint x 64 ptr = Some (base_size, ptr')"
      and s1: "write_and_clear_changes (Some a) buf (length buf - length ptr') v = (Inr buf1, w1)"
      and s2: "get_message_chunk buf1 base_size w1 = (Inr buf2, w2)"
      and "base_size \<le> length buf2"
      and s3: "open_creat_trunc (tmp_path r t) w2 = (None, w3)"
      and s4: "io_write (tmp_path r t) (take base_size buf2) w3 = (Inr (), w4)"
      and s5: "io_sync (tmp_path r t) w4 = (Inr (), w5)"
      and s6: "write_and_clear_changes (Some a) buf2 base_size w5 = (Inr buf3, w6)"
      by (rule base_file_ready_InrE)
    have t6: "trail a buf3 w6 = trail a buf v"
      using trail_write_and_clear_changes(1) [OF s1] trail_get_message_chunk [OF s2, of a]
        trail_open_creat_trunc [OF s3 ne(1), of buf2] trail_io_write [OF s4 ne(1), of buf2]
        trail_io_sync [OF s5, of a buf2] trail_write_and_clear_changes(1) [OF s6]
      by simp
    from l ne have nb: "base_path r t letter \<noteq> a"
      by auto
    obtain r7 w7 where rn: "rename (tmp_path r t) (base_path r t letter) w6 = (r7, w7)"
      by (cases "rename (tmp_path r t) (base_path r t letter) w6")
    note t7 = trail_rename [OF rn ne(1) nb, of buf3]
    obtain u w8 where ul: "unlink (tmp_path r t) w7 = (u, w8)"
      by (cases "unlink (tmp_path r t) w7")
    note t8 = trail_unlink [OF ul ne(1), of buf3]
    from base_file_ready_Inr [OF rdy] run rn ul have "b = buf3 \<and> (v' = w7 \<or> v' = w8)"
      by (auto split: option.split_asm if_split_asm)
    with t6 t7 t8 show ?thesis
      by auto
  qed
qed

lemma blocks_body_BreakE:
  assumes "blocks_body x fd cfd bs buf w = (Inr (Break b), w')"
  obtains buf1 w1 ptr where
    "get_message_chunk buf (REASONABLE_CHANGESET_SIZE x) w = (Inr buf1, w1)"
    and "F_unpack_uint x 32 buf1 = Some (0, ptr)"
    and "write_and_clear_changes cfd buf1 (length buf1 - length ptr) w1 = (Inr b, w')"
  using assms unfolding blocks_body_def Let_def
  by (auto split: option.split_asm prod.split_asm sum.split_asm if_split_asm)

lemma trail_blocks_body_Break:
  assumes "blocks_body x fd (Some a) bs buf v = (Inr (Break b), v')"
  shows "trail a b v' = trail a buf v"
proof -
  from assms obtain buf1 w1 ptr where
    s1: "get_message_chunk buf (REASONABLE_CHANGESET_SIZE x) v = (Inr buf1, w1)"
    and "F_unpack_uint x 32 buf1 = Some (0, ptr)"
    and s2: "write_and_clear_changes (Some a) buf1 (length buf1 - length ptr) w1 = (Inr b, v')"
    by (rule blocks_body_BreakE)
  from trail_get_message_chunk [OF s1, of a] trail_write_and_clear_changes(1) [OF s2]
  show ?thesis
    by simp
qed

lemma trail_blocks_body_Again:
  assumes "blocks_body x fd (Some a) bs buf v = (Inr (Again b), v')" and ne: "fd \<noteq> a"
  shows "trail a b v' = trail a buf v"
proof -
  from assms(1) obtain buf1 w1 tag ptr buf2 w2 buf3 w3 w4 where
    s1: "get_message_chunk buf (REASONABLE_CHANGESET_SIZE x) v = (Inr buf1, w1)"
    and "F_unpack_uint x 32 buf1 = Some (tag, ptr)" and "tag \<noteq> 0"
    and s2: "write_and_clear_changes (Some a) buf1 (length buf1 - length ptr) w1 = (Inr buf2, w2)"
    and s3: "get_message_chunk buf2 bs w2 = (Inr buf3, w3)" and "bs \<le> length buf3"
    and "lseek_ok (bs * (tag - 1))"
    and s4: "io_write_at fd (bs * (tag - 1)) (take bs buf3) w3 = (Inr (), w4)"
    and s5: "write_and_clear_changes (Some a) buf3 bs w4 = (Inr b, v')"
    by (rule blocks_body_AgainE)
  from trail_get_message_chunk [OF s1, of a] trail_write_and_clear_changes(1) [OF s2]
    trail_get_message_chunk [OF s3, of a] trail_io_write_at [OF s4 ne, of buf3]
    trail_write_and_clear_changes(1) [OF s5]
  show ?thesis
    by simp
qed

lemma trail_blocks_loop:
  assumes "blocks_loop x fd (Some a) bs buf v = (res, v')" and ne: "fd \<noteq> a"
  shows "\<forall>b. res = Inr b \<longrightarrow> trail a b v' = trail a buf v"
  using assms(1)
proof (induction rule: blocks_loop_induct)
  case (Inl buf w e)
  then show ?case
    by simp
next
  case (Break buf w b)
  then show ?case
    by (simp add: trail_blocks_body_Break)
next
  case (Again buf w buf1 w1)
  then show ?case
    by (simp add: trail_blocks_body_Again [OF _ ne])
qed

lemma trail_process_changeset_chunk_blocks:
  assumes run: "process_changeset_chunk_blocks x r t buf (Some a) v = (Inr b, v')"
    and nt: "\<not> is_table_file r a"
  shows "trail a b v' = trail a buf v"
proof -
  from nt have ne: "db_path r t \<noteq> a"
    by (auto simp: is_table_file_def)
  from run obtain bs ptr buf1 w1 w3 w4 where
    "F_unpack_uint x 32 buf = Some (bs, ptr)"
    and s1: "write_and_clear_changes (Some a) buf (length buf - length ptr) v = (Inr buf1, w1)"
    and s2: "open_db_file (db_path r t) w1 = (Inr (), w3)"
    and s3: "blocks_loop x (db_path r t) (Some a) bs buf1 w3 = (Inr b, w4)"
    and s4: "io_sync (db_path r t) w4 = (Inr (), v')"
    by (rule process_changeset_chunk_blocksE)
  from trail_write_and_clear_changes(1) [OF s1] trail_open_db_file [OF s2 ne, of buf1]
    trail_blocks_loop [OF s3 ne] trail_io_sync [OF s4, of a b]
  show ?thesis
    by simp
qed

lemma chunks_body_BreakE:
  assumes "chunks_body x r cfd buf w = (Inr (Break bp), w')"
  obtains "get_message_chunk buf (REASONABLE_CHANGESET_SIZE x) w = (Inr (fst bp), w')"
  using assms unfolding chunks_body_def
  by (auto split: list.split_asm option.split_asm prod.split_asm sum.split_asm if_split_asm)

lemma chunks_body_AgainE:
  assumes "chunks_body x r cfd buf w = (Inr (Again b), w')"
  obtains (base) buf1 w1 n t buf2 w2 where
    "get_message_chunk buf (REASONABLE_CHANGESET_SIZE x) w = (Inr buf1, w1)"
    and "write_and_clear_changes cfd buf1 n w1 = (Inr buf2, w2)"
    and "process_changeset_chunk_base x r t buf2 cfd w2 = (Inr b, w')"
  | (blocks) buf1 w1 n t buf2 w2 where
    "get_message_chunk buf (REASONABLE_CHANGESET_SIZE x) w = (Inr buf1, w1)"
    and "write_and_clear_changes cfd buf1 n w1 = (Inr buf2, w2)"
    and "process_changeset_chunk_blocks x r t buf2 cfd w2 = (Inr b, w')"
  using assms unfolding chunks_body_def
  by (auto split: list.split_asm option.split_asm prod.split_asm sum.split_asm if_split_asm)

lemma trail_chunks_body_Again:
  assumes "chunks_body x r (Some a) buf v = (Inr (Again b), v')" and nt: "\<not> is_table_file r a"
  shows "trail a b v' = trail a buf v"
  using assms(1)
proof (cases rule: chunks_body_AgainE)
  case (base buf1 w1 n t buf2 w2)
  with trail_get_message_chunk [of buf _ v buf1 w1 a]
    trail_write_and_clear_changes(1) [of a buf1 n w1 buf2 w2]
    trail_process_changeset_chunk_base [OF _ nt, of x t buf2 w2 b v']
  show ?thesis
    by simp
next
  case (blocks buf1 w1 n t buf2 w2)
  with trail_get_message_chunk [of buf _ v buf1 w1 a]
    trail_write_and_clear_changes(1) [of a buf1 n w1 buf2 w2]
    trail_process_changeset_chunk_blocks [OF _ nt, of x t buf2 w2 b v']
  show ?thesis
    by simp
qed

lemma trail_chunks_loop:
  assumes "chunks_loop x r (Some a) buf v = (res, v')" and nt: "\<not> is_table_file r a"
  shows "\<forall>bp. res = Inr bp \<longrightarrow> trail a (fst bp) v' = trail a buf v"
  using assms(1)
proof (induction rule: chunks_loop_induct)
  case (Inl buf w e)
  then show ?case
    by simp
next
  case (Break buf w bp)
  then show ?case
    by (auto elim!: chunks_body_BreakE dest: trail_get_message_chunk)
next
  case (Again buf w buf1 w1)
  then show ?case
    by (simp add: trail_chunks_body_Again [OF _ nt])
qed

lemma changeset_start_archive:
  assumes run: "changeset_start x r orn valid w = (Inr (e, cfd, buf'), w3)"
    and on: "0 < max_changesets r"
  shows "\<exists>s buf w1 ptr. get_message_chunk [] (REASONABLE_CHANGESET_SIZE x) w = (Inr buf, w1) \<and>
           changeset_header x buf = Inr (s, e, ptr) \<and> cfd = Some (changes_path r s) \<and>
           trail (changes_path r s) buf' w3 = pending (conn w)"
proof -
  from changeset_start_Inr [OF run] obtain buf w1 s ptr where
    c: "get_message_chunk [] (REASONABLE_CHANGESET_SIZE x) w = (Inr buf, w1)"
    and h: "changeset_header x buf = Inr (s, e, ptr)"
    by blast
  obtain rc w2 where cr: "create_changeset_file (db_dir r) (''changes'' @ str s) w1 = (rc, w2)"
    by (cases "create_changeset_file (db_dir r) (''changes'' @ str s) w1")
  from run c h cr on obtain fd where rc: "rc = Inr fd" and cfd: "cfd = Some fd"
    and wc: "write_and_clear_changes (Some fd) buf (length buf - length ptr + 1) w2 = (Inr buf', w3)"
    unfolding changeset_start_def Let_def
    by (auto split: option.split_asm prod.split_asm sum.split_asm if_split_asm)
  from create_changeset_file_files [OF cr] rc
  have fd: "fd = changes_path r s" and f2: "files w2 fd = Some []"
    by (auto simp: changes_path_def)
  from conn_create_changeset_file [of "db_dir r" "''changes'' @ str s" w1] cr
  have c2: "conn w2 = conn w1"
    by simp
  from trail_write_and_clear_changes(1) [OF wc] f2 c2 get_message_chunk_pending [OF c]
  have "trail fd buf' w3 = pending (conn w)"
    by (simp add: trail_def content_def)
  with c h cfd fd show ?thesis
    by blast
qed

lemma apply_changeset_from_conn_archive:
  assumes run: "apply_changeset_from_conn x r orn valid w = (Inr ret, w')"
    and on: "0 < max_changesets r"
  shows "\<exists>s e buf w1 ptr arch.
           get_message_chunk [] (REASONABLE_CHANGESET_SIZE x) w = (Inr buf, w1) \<and>
           changeset_header x buf = Inr (s, e, ptr) \<and>
           files w' (changes_path r s) = Some arch \<and>
           arch @ pending (conn w') = pending (conn w)"
proof -
  from apply_Inr [OF run] obtain e cfd buf' w3 buf4 ptr4 w4 where
    st: "changeset_start x r orn valid w = (Inr (e, cfd, buf'), w3)"
    and lp: "chunks_loop x r cfd buf' w3 = (Inr (buf4, ptr4), w4)"
    and fin: "write_and_clear_changes cfd buf4 (length buf4) w4 = (Inr [], w')"
    by blast
  from changeset_start_archive [OF st on] obtain s buf w1 ptr where
    c: "get_message_chunk [] (REASONABLE_CHANGESET_SIZE x) w = (Inr buf, w1)"
    and h: "changeset_header x buf = Inr (s, e, ptr)"
    and cfd: "cfd = Some (changes_path r s)"
    and t3: "trail (changes_path r s) buf' w3 = pending (conn w)"
    by blast
  from trail_chunks_loop [OF lp [unfolded cfd] changes_path_not_table]
  have t4: "trail (changes_path r s) buf4 w4 = trail (changes_path r s) buf' w3"
    by simp
  from trail_write_and_clear_changes [OF fin [unfolded cfd]] t3 t4
  have "content w' (changes_path r s) @ pending (conn w') = pending (conn w)"
    and "files w' (changes_path r s) \<noteq> None"
    by (simp_all add: trail_def)
  then obtain arch where "files w' (changes_path r s) = Some arch"
    and "arch @ pending (conn w') = pending (conn w)"
    by (auto simp: content_def)
  with c h show ?thesis
    by blast
qed

lemma restore_same: "restore a (files w a) w = w"
  by (simp add: restore_def)

lemma restore_fixed: "w' = restore a c w' \<Longrightarrow> files w' a = c"
  by (erule ssubst) (simp add: restore_def)

lemma archive_of_stream:
  "\<exists>s. (case get_message_chunk [] n w of
          (Inl e, w1) \<Rightarrow> changes_path r 0
        | (Inr buf, w1) \<Rightarrow>
          (case changeset_header x buf of
             Inl e \<Rightarrow> changes_path r 0
           | Inr (s, e, ptr) \<Rightarrow> changes_path r s)) = changes_path r s"
  by (auto split: prod.splits sum.splits)

text \<open>
  C4 (corrected). Two replicators on the same directory, \<open>r0\<close> with a retention count of
  0 or less and \<open>r1\<close> with a count above 0, and the same apply on both. With \<open>r0\<close> no
  archival file is created or changed, whatever the outcome: every file \<open>changes<s>\<close> is
  as it was. Provided that the medium does nothing to the system calls on the archival
  files, the apply with \<open>r0\<close> has the result of the apply with \<open>r1\<close>, error or success, and
  leaves the world of \<open>r1\<close> (the files, the connection and the medium) but for one archival
  file, which it leaves as it was. When the apply with \<open>r1\<close> returns, the archival file
  named from the start revision of the header holds exactly the bytes taken from the
  connection, in order: followed by what the connection still holds, they are what
  the connection held at the start.
\<close>

theorem archival_gating:
  assumes off: "max_changesets r0 \<le> 0" and on: "0 < max_changesets r1"
    and dir: "db_dir r0 = db_dir r1"
    and run: "apply_changeset_from_conn x r1 orn valid w = (res, w')"
  shows "(\<forall>s. files (snd (apply_changeset_from_conn x r0 orn valid w)) (changes_path r0 s) =
              files w (changes_path r0 s)) \<and>
         ((\<forall>s. faults w (changes_path r1 s) = []) \<longrightarrow>
          (\<exists>s. apply_changeset_from_conn x r0 orn valid w =
                 (res, w'\<lparr>files := (files w')(changes_path r1 s := files w (changes_path r1 s))\<rparr>))) \<and>
         (\<forall>ret. res = Inr ret \<longrightarrow>
            (\<exists>s e buf w1 ptr arch.
               get_message_chunk [] (REASONABLE_CHANGESET_SIZE x) w = (Inr buf, w1) \<and>
               changeset_header x buf = Inr (s, e, ptr) \<and>
               files w' (changes_path r1 s) = Some arch \<and>
               arch @ pending (conn w') = pending (conn w)))"
proof -
  from off have off': "\<not> 0 < max_changesets r0"
    by simp
  have 1: "files (snd (apply_changeset_from_conn x r0 orn valid w)) (changes_path r0 s) =
      files w (changes_path r0 s)" for s
  proof -
    obtain res0 w0 where r: "apply_changeset_from_conn x r0 orn valid w = (res0, w0)"
      by (cases "apply_changeset_from_conn x r0 orn valid w")
    from off' have "apply_changeset_from_conn x r0 orn valid
        (restore (changes_path r0 s) (files w (changes_path r0 s)) w) =
        (res0, restore (changes_path r0 s) (files w (changes_path r0 s)) w0)"
      by (intro apply_changeset_from_conn_sim [OF r refl off'] changes_path_not_table) simp_all
    with r have "w0 = restore (changes_path r0 s) (files w (changes_path r0 s)) w0"
      by (simp add: restore_same)
    then have "files w0 (changes_path r0 s) = files w (changes_path r0 s)"
      by (rule restore_fixed)
    with r show ?thesis
      by simp
  qed
  have 2: "\<exists>s. apply_changeset_from_conn x r0 orn valid w =
      (res, w'\<lparr>files := (files w')(changes_path r1 s := files w (changes_path r1 s))\<rparr>)"
    if quiet: "\<forall>s. faults w (changes_path r1 s) = []"
  proof -
    define a where "a = (case get_message_chunk [] (REASONABLE_CHANGESET_SIZE x) w of
          (Inl e, w1) \<Rightarrow> changes_path r1 0
        | (Inr buf, w1) \<Rightarrow>
          (case changeset_header x buf of
             Inl e \<Rightarrow> changes_path r1 0
           | Inr (s, e, ptr) \<Rightarrow> changes_path r1 s))"
    from archive_of_stream [where n = "REASONABLE_CHANGESET_SIZE x" and w = w and r = r1 and x = x]
    obtain s where a: "a = changes_path r1 s"
      unfolding a_def by blast
    have "apply_changeset_from_conn x r0 orn valid (restore a (files w a) w) =
        (res, restore a (files w a) w')"
    proof (rule apply_changeset_from_conn_sim [OF run dir off'])
      from quiet a show "0 < max_changesets r1 \<longrightarrow> faults w a = []"
        by simp
      show "0 < max_changesets r1 \<longrightarrow> (\<forall>buf w1 s e ptr.
         get_message_chunk [] (REASONABLE_CHANGESET_SIZE x) w = (Inr buf, w1) \<longrightarrow>
         changeset_header x buf = Inr (s, e, ptr) \<longrightarrow> a = changes_path r1 s)"
        by (simp add: a_def)
      from a show "\<not> is_table_file r1 a"
        by (simp add: changes_path_not_table)
    qed
    then show ?thesis
      unfolding a by (auto simp: restore_same restore_def)
  qed
  have 3: "\<exists>s e buf w1 ptr arch.
               get_message_chunk [] (REASONABLE_CHANGESET_SIZE x) w = (Inr buf, w1) \<and>
               changeset_header x buf = Inr (s, e, ptr) \<and>
               files w' (changes_path r1 s) = Some arch \<and>
               arch @ pending (conn w') = pending (conn w)" if "res = Inr ret" for ret
    using apply_changeset_from_conn_archive [OF run [unfolded that] on] .
  from 1 2 3 show ?thesis
    by blast
qed

lemma archived56_chunk: "get_message_chunk buf n (archived56 c) = (Inr buf, archived56 c)"
  by (simp add: get_message_chunk_def archived56_def)

lemma archived56_write:
  "write_and_clear_changes (Some ''db/changes5'') buf n (archived56 c) =
     (Inr (drop n buf), archived56 (c @ take n buf))"
  by (simp add: write_and_clear_changes_no_fault archived56_def content_def)

lemma changeset56_archived_start:
  "changeset_start flint (replica 1) 5 True (disk [Data (changeset56 items)]) =
     (Inr (6, Some ''db/changes5'', items), archived56 (header56 (CHR 0x00)))"
proof -
  have "(disk [])\<lparr>files := [''db/changes5'' \<mapsto> []]\<rparr> = archived56 []"
    by (simp add: disk_def archived56_def)
  with disk1_create have c: "create_changeset_file (db_dir (replica 1)) (''changes'' @ str 5) (disk []) =
      (Inr ''db/changes5'', archived56 [])"
    by simp
  have m: "0 < max_changesets (replica 1)"
    by (simp add: replica_def)
  have t: "take 16 (changeset56 items) = header56 (CHR 0x00)"
    by (simp add: changeset56_def header56_def)
  from c show ?thesis
    by (simp add: changeset_start_def disk_lock disk_first_chunk changeset56_header m
        archived56_write changeset56_length changeset56_drop t)
qed

lemma changeset56_archived:
  "apply_changeset_from_conn flint (replica 1) 5 True
       (disk [Data (changeset56 [CHR 0x00, CHR 0x06])]) =
     (Inr (pack 6), archived56 (changeset56 [CHR 0x00, CHR 0x06]))"
proof -
  have f: "changeset_footer flint 6 [CHR 0x06] = Inr 6"
    by (simp add: changeset_footer_def flint_uint)
  have l: "chunks_loop flint (replica 1) (Some ''db/changes5'') [CHR 0x00, CHR 0x06]
      (archived56 (header56 (CHR 0x00))) =
      (Inr ([CHR 0x00, CHR 0x06], [CHR 0x06]), archived56 (header56 (CHR 0x00)))"
    by (simp add: chunks_loop.simps chunks_body_def archived56_chunk)
  have p: "pack_uint flint 6 = pack 6"
    by (simp add: flint_def)
  have e: "header56 (CHR 0x00) @ [CHR 0x00, CHR 0x06] = changeset56 [CHR 0x00, CHR 0x06]"
    by (simp add: changeset56_def)
  show ?thesis
    by (simp add: apply_changeset_from_conn_loop changeset56_archived_start l f
        archived56_write p e)
qed

subsection \<open>Chunks on a medium that does nothing\<close>

lemma open_creat_trunc_quiet:
  "faults w p = [] \<Longrightarrow> open_creat_trunc p w = (None, w\<lparr>files := (files w)(p \<mapsto> [])\<rparr>)"
  by (simp add: open_creat_trunc_def syscall_no_fault)

lemma io_write_quiet:
  "faults w p = [] \<Longrightarrow>
     io_write p d w = (Inr (), w\<lparr>files := (files w)(p \<mapsto> content w p @ d)\<rparr>)"
  by (simp add: io_write_def write_fd_def syscall_no_fault)

lemma io_write_at_quiet:
  "faults w p = [] \<Longrightarrow>
     io_write_at p off d w = (Inr (), w\<lparr>files := (files w)(p \<mapsto> pwrite (content w p) off d)\<rparr>)"
  by (simp add: io_write_at_def write_at_def syscall_no_fault)

lemma io_sync_quiet: "faults w p = [] \<Longrightarrow> io_sync p w = (Inr (), w)"
  by (simp add: io_sync_def fsync_def syscall_no_fault)

lemma rename_quiet:
  "faults w p = [] \<Longrightarrow> files w p = Some c \<Longrightarrow>
     rename p q w = (None, w\<lparr>files := (files w)(p := None, q \<mapsto> c)\<rparr>)"
  by (simp add: rename_def syscall_no_fault)

lemma open_db_file_quiet:
  "faults w p = [] \<Longrightarrow>
     open_db_file p w = (Inr (), if files w p = None then w\<lparr>files := (files w)(p \<mapsto> [])\<rparr> else w)"
  by (simp add: open_db_file_def open_wronly_def open_creat_trunc_def syscall_no_fault
      file_exists_def)

lemma get_message_chunk_eq:
  "read_chunk buf n (conn w) = (res, c) \<Longrightarrow> get_message_chunk buf n w = (res, w\<lparr>conn := c\<rparr>)"
  by (simp add: get_message_chunk_def)

lemma chunk_at_end_of_stream: "conn w = [] \<Longrightarrow> get_message_chunk buf n w = (Inr buf, w)"
  by (cases w) (simp add: get_message_chunk_def)

lemma syscall_NoFault:
  "faults w p = NoFault # fs \<Longrightarrow> syscall p eff w = eff (w\<lparr>faults := (faults w)(p := fs)\<rparr>)"
  by (simp add: syscall_def next_fault_def)

lemma syscall_Fail:
  "faults w p = Fail k # fs \<Longrightarrow>
     syscall p eff w = (Some (EOTHER k), w\<lparr>faults := (faults w)(p := fs)\<rparr>)"
  by (simp add: syscall_def next_fault_def)

lemma sim_same_result:
  assumes s: "sim a (files v a) True f g" and quiet: "faults v a = []" and g: "g v = (res, v0)"
  shows "\<exists>v'. f v = (res, v') \<and> restore a (files v a) v' = v0"
proof -
  obtain r' v' where f: "f v = (r', v')"
    by (cases "f v")
  from simD [OF s _ f] quiet g have "r' = res" "restore a (files v a) v' = v0"
    by (simp_all add: restore_same)
  with f show ?thesis
    by simp
qed

lemma flint_string:
  "F_unpack_string flint (CHR 0x01 # c # rest) = Some ([c], rest)"
  by (simp add: F_unpack_string_def flint_uint)

lemma changes5: "changes_path (replica k) 5 = ''db/changes5''"
  by (simp add: changes_path_def replica_def str.simps digit_def)

subsection \<open>The claim about the base file of a chunk\<close>

lemma base_applied_quiet:
  assumes letter: "letter = CHR ''A'' \<or> letter = CHR ''B''"
    and size: "F_unpack_uint x 64 ptr = Some (n, rest)"
    and rd: "read_chunk rest n (conn w) = (Inr buf2, c2)" and len: "n \<le> length buf2"
    and quiet: "faults w (tmp_path r t) = []"
  shows "process_changeset_chunk_base x r t (letter # ptr) None w =
     (Inr (drop n buf2),
      w\<lparr>conn := c2,
        files := (files w)(tmp_path r t := None, base_path r t letter \<mapsto> take n buf2)\<rparr>)"
proof -
  from size have ne: "ptr \<noteq> []" and d: "drop (length (letter # ptr) - length rest) (letter # ptr) = rest"
    by (auto dest!: F_unpack_uint_Some)
  let ?w2 = "w\<lparr>conn := c2\<rparr>"
  have g: "get_message_chunk rest n w = (Inr buf2, ?w2)"
    using rd by (rule get_message_chunk_eq)
  have q2: "faults ?w2 (tmp_path r t) = []"
    using quiet by simp
  let ?w3 = "?w2\<lparr>files := (files ?w2)(tmp_path r t \<mapsto> [])\<rparr>"
  have o: "open_creat_trunc (tmp_path r t) ?w2 = (None, ?w3)"
    using q2 by (rule open_creat_trunc_quiet)
  have q3: "faults ?w3 (tmp_path r t) = []"
    using quiet by simp
  let ?w4 = "?w3\<lparr>files := (files ?w3)(tmp_path r t \<mapsto> take n buf2)\<rparr>"
  have wr: "io_write (tmp_path r t) (take n buf2) ?w3 = (Inr (), ?w4)"
    using io_write_quiet [OF q3, of "take n buf2"] by (simp add: content_def)
  have q4: "faults ?w4 (tmp_path r t) = []"
    using quiet by simp
  have sy: "io_sync (tmp_path r t) ?w4 = (Inr (), ?w4)"
    using q4 by (rule io_sync_quiet)
  have rn: "rename (tmp_path r t) (base_path r t letter) ?w4 =
      (None, ?w4\<lparr>files := (files ?w4)(tmp_path r t := None, base_path r t letter \<mapsto> take n buf2)\<rparr>)"
    using q4 by (rule rename_quiet) simp
  have rdy: "base_file_ready x r t (letter # ptr) None w = (Inr (letter, drop n buf2), ?w4)"
    using letter ne size d g o wr sy len
    by (auto simp: base_file_ready_def write_and_clear_changes_def)
  from base_file_ready_Inr [OF rdy] rn show ?thesis
    by simp
qed

lemma sim_base_chunk:
  assumes "cfd = None \<or> nf \<and> cfd = Some a"
    and "a \<noteq> tmp_path r t" and "a \<noteq> base_path r t (CHR ''A'')" and "a \<noteq> base_path r t (CHR ''B'')"
  shows "sim a c nf (process_changeset_chunk_base x r t buf cfd)
           (process_changeset_chunk_base x r t buf None)"
  unfolding process_changeset_chunk_base_def [abs_def] Let_def
  using assms(2-4)
  by (intro sim_steps assms(1)) (auto simp: tmp_path_def base_path_def)

lemma base_applied:
  assumes letter: "letter = CHR ''A'' \<or> letter = CHR ''B''"
    and size: "F_unpack_uint x 64 ptr = Some (n, rest)"
    and rd: "read_chunk rest n (conn w) = (Inr buf2, c2)" and len: "n \<le> length buf2"
    and quiet: "faults w (tmp_path r t) = []"
    and cfd: "cfd = None \<or> (\<exists>a. cfd = Some a \<and> a \<noteq> tmp_path r t \<and>
        a \<noteq> base_path r t (CHR ''A'') \<and> a \<noteq> base_path r t (CHR ''B'') \<and> faults w a = [])"
  shows "\<exists>w'. process_changeset_chunk_base x r t (letter # ptr) cfd w = (Inr (drop n buf2), w') \<and>
           conn w' = c2 \<and> files w' (tmp_path r t) = None \<and>
           files w' (base_path r t letter) = Some (take n buf2)"
proof (cases cfd)
  case None
  with base_applied_quiet [OF letter size rd len quiet] show ?thesis
    by (simp add: base_paths_differ)
next
  case (Some a)
  with cfd have a: "a \<noteq> tmp_path r t" "a \<noteq> base_path r t (CHR ''A'')"
    "a \<noteq> base_path r t (CHR ''B'')" "faults w a = []"
    by simp_all
  have "sim a (files w a) True (process_changeset_chunk_base x r t (letter # ptr) (Some a))
      (process_changeset_chunk_base x r t (letter # ptr) None)"
    by (rule sim_base_chunk) (simp_all add: a)
  from sim_same_result [OF this a(4) base_applied_quiet [OF letter size rd len quiet]]
  obtain w' where run: "process_changeset_chunk_base x r t (letter # ptr) (Some a) w =
      (Inr (drop n buf2), w')"
    and w': "restore a (files w a) w' = w\<lparr>conn := c2,
        files := (files w)(tmp_path r t := None, base_path r t letter \<mapsto> take n buf2)\<rparr>"
    by blast
  from letter a have nb: "base_path r t letter \<noteq> a"
    by auto
  from arg_cong [OF w', of conn] have "conn w' = c2"
    by simp
  moreover from arg_cong [OF w', of "\<lambda>v. files v (tmp_path r t)"] a(1)
  have "files w' (tmp_path r t) = None"
    by (simp add: restore_def base_paths_differ)
  moreover from arg_cong [OF w', of "\<lambda>v. files v (base_path r t letter)"] nb
  have "files w' (base_path r t letter) = Some (take n buf2)"
    by (simp add: restore_def base_paths_differ)
  ultimately show ?thesis
    using run Some by simp
qed

lemma base_sync_fails:
  assumes letter: "letter = CHR ''A'' \<or> letter = CHR ''B''"
    and size: "F_unpack_uint x 64 ptr = Some (n, rest)"
    and rd: "read_chunk rest n (conn w) = (Inr buf2, c2)" and len: "n \<le> length buf2"
    and fs: "faults w (tmp_path r t) = NoFault # NoFault # Fail k # fs"
  shows "process_changeset_chunk_base x r t (letter # ptr) None w =
     (Inl (DatabaseError ''Error syncing file'' (EOTHER k)),
      w\<lparr>conn := c2, files := (files w)(tmp_path r t \<mapsto> take n buf2),
        faults := (faults w)(tmp_path r t := fs)\<rparr>)"
proof -
  from size have ne: "ptr \<noteq> []" and d: "drop (length (letter # ptr) - length rest) (letter # ptr) = rest"
    by (auto dest!: F_unpack_uint_Some)
  let ?w2 = "w\<lparr>conn := c2\<rparr>"
  have g: "get_message_chunk rest n w = (Inr buf2, ?w2)"
    using rd by (rule get_message_chunk_eq)
  let ?w3 = "?w2\<lparr>faults := (faults w)(tmp_path r t := NoFault # Fail k # fs),
      files := (files w)(tmp_path r t \<mapsto> [])\<rparr>"
  have o: "open_creat_trunc (tmp_path r t) ?w2 = (None, ?w3)"
    using fs by (simp add: open_creat_trunc_def syscall_NoFault)
  let ?w4 = "?w2\<lparr>faults := (faults w)(tmp_path r t := Fail k # fs),
      files := (files w)(tmp_path r t \<mapsto> take n buf2)\<rparr>"
  have wr: "io_write (tmp_path r t) (take n buf2) ?w3 = (Inr (), ?w4)"
    by (simp add: io_write_def write_fd_def syscall_NoFault content_def)
  let ?w5 = "?w2\<lparr>faults := (faults w)(tmp_path r t := fs),
      files := (files w)(tmp_path r t \<mapsto> take n buf2)\<rparr>"
  have sy: "io_sync (tmp_path r t) ?w4 = (Inl (DatabaseError ''Error syncing file'' (EOTHER k)), ?w5)"
    by (simp add: io_sync_def fsync_def syscall_Fail)
  have "base_file_ready x r t (letter # ptr) None w =
      (Inl (DatabaseError ''Error syncing file'' (EOTHER k)), ?w5)"
    using letter ne size d g o wr sy len
    by (auto simp: base_file_ready_def write_and_clear_changes_def)
  from base_file_ready_Inl [OF this] show ?thesis
    by simp
qed

text \<open>
  C7 (corrected). For a base-file chunk (the archival descriptor not being one of the
  two paths of the chunk): a letter other than \<open>A\<close> or \<open>B\<close> is a \<open>NetworkError\<close> and
  nothing is done; when the stream holds fewer bytes than the declared size the call
  fails. A chunk with the letter \<open>A\<close> or \<open>B\<close> whose size decodes and whose bytes the
  connection delivers is applied, provided that the medium does nothing to the system
  calls on the temporary file and on the archival file: the call returns,
  \<open><table>.base<letter>\<close> holds exactly the declared number of bytes and the temporary
  file is gone. The temporary file is synced once it is written and before it is
  renamed: when the sync, the third system call on the temporary file, fails, the call
  ends with the error of the sync, the temporary file holds the whole content and
  \<open><table>.base<letter>\<close> is as it was. When the call returns, \<open><table>.base<letter>\<close>
  holds exactly the declared number of bytes that follow the size in the stream and the
  temporary file is gone; whatever the outcome, \<open><table>.base<letter>\<close> holds either
  what it held before or the whole new content, never a part of it; and no file other
  than this base file, the temporary file and the archival file is changed.
\<close>

theorem base_file_applied:
  assumes "process_changeset_chunk_base x r t buf cfd w = (res, w')"
    and "cfd \<noteq> Some (tmp_path r t)" and "cfd \<noteq> Some (base_path r t (hd buf))"
  shows "(buf = [] \<or> hd buf \<noteq> CHR ''A'' \<and> hd buf \<noteq> CHR ''B'' \<longrightarrow>
            res = Inl (NetworkError ''Invalid base file letter in changeset'') \<and> w' = w) \<and>
         (F_unpack_uint x 64 (tl buf) = Some (base_size, ptr') \<and>
          length (ptr' @ pending (conn w)) < base_size \<longrightarrow> (\<exists>e. res = Inl e)) \<and>
         (buf \<noteq> [] \<and> (hd buf = CHR ''A'' \<or> hd buf = CHR ''B'') \<and>
          F_unpack_uint x 64 (tl buf) = Some (n, rest) \<and>
          read_chunk rest n (conn w) = (Inr buf2, c2) \<and> n \<le> length buf2 \<and>
          faults w (tmp_path r t) = [] \<and>
          (cfd = None \<or> (\<exists>a. cfd = Some a \<and> a \<noteq> tmp_path r t \<and>
             a \<noteq> base_path r t (CHR ''A'') \<and> a \<noteq> base_path r t (CHR ''B'') \<and> faults w a = [])) \<longrightarrow>
            res = Inr (drop n buf2) \<and> conn w' = c2 \<and> files w' (tmp_path r t) = None \<and>
            files w' (base_path r t (hd buf)) = Some (take n buf2)) \<and>
         (buf \<noteq> [] \<and> (hd buf = CHR ''A'' \<or> hd buf = CHR ''B'') \<and>
          F_unpack_uint x 64 (tl buf) = Some (n, rest) \<and>
          read_chunk rest n (conn w) = (Inr buf2, c2) \<and> n \<le> length buf2 \<and> cfd = None \<and>
          faults w (tmp_path r t) = NoFault # NoFault # Fail k # fs \<longrightarrow>
            res = Inl (DatabaseError ''Error syncing file'' (EOTHER k)) \<and>
            files w' (tmp_path r t) = Some (take n buf2) \<and>
            files w' (base_path r t (hd buf)) = files w (base_path r t (hd buf))) \<and>
         ((\<exists>b. res = Inr b) \<longrightarrow>
            (\<exists>n rest. F_unpack_uint x 64 (tl buf) = Some (n, rest) \<and>
               n \<le> length (rest @ pending (conn w)) \<and>
               files w' (base_path r t (hd buf)) = Some (take n (rest @ pending (conn w)))) \<and>
            files w' (tmp_path r t) = None) \<and>
         (files w' (base_path r t (hd buf)) = files w (base_path r t (hd buf)) \<or>
          files w' (base_path r t (hd buf)) = base_file_content x buf (conn w) \<and>
          base_file_content x buf (conn w) \<noteq> None) \<and>
         (\<forall>q. q \<noteq> tmp_path r t \<and> q \<noteq> base_path r t (hd buf) \<and> cfd \<noteq> Some q \<longrightarrow>
            files w' q = files w q)"
proof -
  note out = process_changeset_chunk_base_outcome [OF assms]
  have 1: "buf = [] \<or> hd buf \<noteq> CHR ''A'' \<and> hd buf \<noteq> CHR ''B'' \<longrightarrow>
            res = Inl (NetworkError ''Invalid base file letter in changeset'') \<and> w' = w"
    using assms(1) process_changeset_chunk_base_letter [of buf x r t cfd w] by auto
  have 5: "(\<exists>b. res = Inr b) \<longrightarrow>
            (\<exists>n rest. F_unpack_uint x 64 (tl buf) = Some (n, rest) \<and>
               n \<le> length (rest @ pending (conn w)) \<and>
               files w' (base_path r t (hd buf)) = Some (take n (rest @ pending (conn w)))) \<and>
            files w' (tmp_path r t) = None"
    using out
    by (auto simp: base_file_content_def split: list.splits option.splits if_splits)
  have 2: "F_unpack_uint x 64 (tl buf) = Some (base_size, ptr') \<and>
          length (ptr' @ pending (conn w)) < base_size \<longrightarrow> (\<exists>e. res = Inl e)"
    using 5 by (cases res) auto
  have 3: "res = Inr (drop n buf2) \<and> conn w' = c2 \<and> files w' (tmp_path r t) = None \<and>
            files w' (base_path r t (hd buf)) = Some (take n buf2)"
    if h: "buf \<noteq> [] \<and> (hd buf = CHR ''A'' \<or> hd buf = CHR ''B'') \<and>
          F_unpack_uint x 64 (tl buf) = Some (n, rest) \<and>
          read_chunk rest n (conn w) = (Inr buf2, c2) \<and> n \<le> length buf2 \<and>
          faults w (tmp_path r t) = [] \<and>
          (cfd = None \<or> (\<exists>a. cfd = Some a \<and> a \<noteq> tmp_path r t \<and>
             a \<noteq> base_path r t (CHR ''A'') \<and> a \<noteq> base_path r t (CHR ''B'') \<and> faults w a = []))"
  proof -
    from h have b: "buf = hd buf # tl buf"
      by simp
    from h base_applied [of "hd buf" x "tl buf" n rest w buf2 c2 r t cfd]
    obtain v where "process_changeset_chunk_base x r t (hd buf # tl buf) cfd w = (Inr (drop n buf2), v)"
      and "conn v = c2" and "files v (tmp_path r t) = None"
      and "files v (base_path r t (hd buf)) = Some (take n buf2)"
      by blast
    with assms(1) b show ?thesis
      by simp
  qed
  have 4: "res = Inl (DatabaseError ''Error syncing file'' (EOTHER k)) \<and>
            files w' (tmp_path r t) = Some (take n buf2) \<and>
            files w' (base_path r t (hd buf)) = files w (base_path r t (hd buf))"
    if h: "buf \<noteq> [] \<and> (hd buf = CHR ''A'' \<or> hd buf = CHR ''B'') \<and>
          F_unpack_uint x 64 (tl buf) = Some (n, rest) \<and>
          read_chunk rest n (conn w) = (Inr buf2, c2) \<and> n \<le> length buf2 \<and> cfd = None \<and>
          faults w (tmp_path r t) = NoFault # NoFault # Fail k # fs"
  proof -
    from h have b: "buf = hd buf # tl buf"
      by simp
    from h base_sync_fails [of "hd buf" x "tl buf" n rest w buf2 c2 r t k fs]
    have "process_changeset_chunk_base x r t (hd buf # tl buf) None w =
     (Inl (DatabaseError ''Error syncing file'' (EOTHER k)),
      w\<lparr>conn := c2, files := (files w)(tmp_path r t \<mapsto> take n buf2),
        faults := (faults w)(tmp_path r t := fs)\<rparr>)"
      by blast
    with assms(1) b h show ?thesis
      using base_paths_differ [of r t "hd buf"] by auto
  qed
  from 1 2 3 4 5 out show ?thesis
    by blast
qed

lemma postlist_base_B: "base_path (replica 0) ''postlist'' (CHR ''B'') = ''db/postlist.baseB''"
  by (simp add: base_path_def replica_def)

lemma faulty_stream: "read_chunk [] 2 (conn (faulty fs)) = (Inr ''hi'', [])"
  by (simp add: faulty_def)

text \<open>
  C7, at five inputs for the table \<open>postlist\<close>, the bytes \<open>hi\<close> on the connection: the
  chunks \<open>A\<close> and \<open>B\<close> of size 2, which are applied; a chunk with the letter \<open>C\<close>; a chunk
  \<open>A\<close> of size 3, for which the stream is too short; and the chunk \<open>A\<close> of size 2 when
  the sync fails with code 5.
\<close>

theorem base_file_applied_witness:
  "(fst (process_changeset_chunk_base flint (replica 0) ''postlist'' [CHR ''A'', CHR 0x02] None
      (faulty [])) = Inr [] \<and>
    files (snd (process_changeset_chunk_base flint (replica 0) ''postlist'' [CHR ''A'', CHR 0x02] None
      (faulty []))) ''db/postlisttmp'' = None \<and>
    files (snd (process_changeset_chunk_base flint (replica 0) ''postlist'' [CHR ''A'', CHR 0x02] None
      (faulty []))) ''db/postlist.baseA'' = Some ''hi'') \<and>
   (fst (process_changeset_chunk_base flint (replica 0) ''postlist'' [CHR ''B'', CHR 0x02] None
      (faulty [])) = Inr [] \<and>
    files (snd (process_changeset_chunk_base flint (replica 0) ''postlist'' [CHR ''B'', CHR 0x02] None
      (faulty []))) ''db/postlisttmp'' = None \<and>
    files (snd (process_changeset_chunk_base flint (replica 0) ''postlist'' [CHR ''B'', CHR 0x02] None
      (faulty []))) ''db/postlist.baseB'' = Some ''hi'') \<and>
   process_changeset_chunk_base flint (replica 0) ''postlist'' [CHR ''C'', CHR 0x02] None (faulty []) =
     (Inl (NetworkError ''Invalid base file letter in changeset''), faulty []) \<and>
   (\<exists>e. fst (process_changeset_chunk_base flint (replica 0) ''postlist'' [CHR ''A'', CHR 0x03] None
      (faulty [])) = Inl e) \<and>
   (fst (process_changeset_chunk_base flint (replica 0) ''postlist'' [CHR ''A'', CHR 0x02] None
      (faulty [NoFault, NoFault, Fail 5])) = Inl (DatabaseError ''Error syncing file'' (EOTHER 5)) \<and>
    files (snd (process_changeset_chunk_base flint (replica 0) ''postlist'' [CHR ''A'', CHR 0x02] None
      (faulty [NoFault, NoFault, Fail 5]))) ''db/postlisttmp'' = Some ''hi'' \<and>
    files (snd (process_changeset_chunk_base flint (replica 0) ''postlist'' [CHR ''A'', CHR 0x02] None
      (faulty [NoFault, NoFault, Fail 5]))) ''db/postlist.baseA'' = None)"
proof -
  have u: "F_unpack_uint flint 64 [CHR 0x02] = Some (2, [])"
    and u3: "F_unpack_uint flint 64 [CHR 0x03] = Some (3, [])"
    by (simp_all add: flint_uint)
  have q: "faults (faulty []) (tmp_path (replica 0) ''postlist'') = []"
    and q3: "faults (faulty [NoFault, NoFault, Fail 5]) (tmp_path (replica 0) ''postlist'') =
      NoFault # NoFault # Fail 5 # []"
    and none: "files (faulty fs) p = None"
    and pend: "pending (conn (faulty fs)) = ''hi''" for fs p
    by (simp_all add: faulty_def postlist_paths)
  note T = base_file_applied [OF prod.collapse [symmetric] option.distinct(1) option.distinct(1)]
  let ?A = "process_changeset_chunk_base flint (replica 0) ''postlist'' [CHR ''A'', CHR 0x02] None
      (faulty [])"
  let ?B = "process_changeset_chunk_base flint (replica 0) ''postlist'' [CHR ''B'', CHR 0x02] None
      (faulty [])"
  let ?C = "process_changeset_chunk_base flint (replica 0) ''postlist'' [CHR ''C'', CHR 0x02] None
      (faulty [])"
  let ?D = "process_changeset_chunk_base flint (replica 0) ''postlist'' [CHR ''A'', CHR 0x03] None
      (faulty [])"
  let ?E = "process_changeset_chunk_base flint (replica 0) ''postlist'' [CHR ''A'', CHR 0x02] None
      (faulty [NoFault, NoFault, Fail 5])"
  have A: "fst ?A = Inr (drop 2 ''hi'') \<and> conn (snd ?A) = [] \<and>
      files (snd ?A) (tmp_path (replica 0) ''postlist'') = None \<and>
      files (snd ?A) (base_path (replica 0) ''postlist'' (hd [CHR ''A'', CHR 0x02])) =
        Some (take 2 ''hi'')"
    by (rule T [where x = flint and r = "replica 0" and t = "''postlist''"
          and buf = "[CHR ''A'', CHR 0x02]" and w = "faulty []" and n = 2 and rest = "[]"
          and ?buf2.0 = "''hi''" and ?c2.0 = "[]",
          THEN conjunct2, THEN conjunct2, THEN conjunct1, THEN mp])
       (simp add: u q faulty_stream)
  have B: "fst ?B = Inr (drop 2 ''hi'') \<and> conn (snd ?B) = [] \<and>
      files (snd ?B) (tmp_path (replica 0) ''postlist'') = None \<and>
      files (snd ?B) (base_path (replica 0) ''postlist'' (hd [CHR ''B'', CHR 0x02])) =
        Some (take 2 ''hi'')"
    by (rule T [where x = flint and r = "replica 0" and t = "''postlist''"
          and buf = "[CHR ''B'', CHR 0x02]" and w = "faulty []" and n = 2 and rest = "[]"
          and ?buf2.0 = "''hi''" and ?c2.0 = "[]",
          THEN conjunct2, THEN conjunct2, THEN conjunct1, THEN mp])
       (simp add: u q faulty_stream)
  have C: "fst ?C = Inl (NetworkError ''Invalid base file letter in changeset'') \<and> snd ?C = faulty []"
    by (rule T [where x = flint and r = "replica 0" and t = "''postlist''"
          and buf = "[CHR ''C'', CHR 0x02]" and w = "faulty []", THEN conjunct1, THEN mp])
       simp
  have D: "\<exists>e. fst ?D = Inl e"
    by (rule T [where x = flint and r = "replica 0" and t = "''postlist''"
          and buf = "[CHR ''A'', CHR 0x03]" and w = "faulty []" and base_size = 3 and ptr' = "[]",
          THEN conjunct2, THEN conjunct1, THEN mp])
       (simp add: u3 pend)
  have E: "fst ?E = Inl (DatabaseError ''Error syncing file'' (EOTHER 5)) \<and>
      files (snd ?E) (tmp_path (replica 0) ''postlist'') = Some (take 2 ''hi'') \<and>
      files (snd ?E) (base_path (replica 0) ''postlist'' (hd [CHR ''A'', CHR 0x02])) =
        files (faulty [NoFault, NoFault, Fail 5])
          (base_path (replica 0) ''postlist'' (hd [CHR ''A'', CHR 0x02]))"
    by (rule T [where x = flint and r = "replica 0" and t = "''postlist''"
          and buf = "[CHR ''A'', CHR 0x02]" and w = "faulty [NoFault, NoFault, Fail 5]"
          and n = 2 and rest = "[]" and ?buf2.0 = "''hi''" and ?c2.0 = "[]" and k = 5 and fs = "[]",
          THEN conjunct2, THEN conjunct2, THEN conjunct2, THEN conjunct1, THEN mp])
       (simp add: u q3 faulty_stream)
  from A B C D E show ?thesis
    by (simp add: postlist_paths postlist_base_B none prod_eq_iff)
qed

text \<open>
  C7 as stated fails: the letter is \<open>A\<close> and the two declared bytes are on the
  connection, but opening the temporary file fails with code 5. The call ends with a
  \<open>DatabaseError\<close>, and neither the temporary file nor \<open>postlist.baseA\<close> is written.
\<close>

theorem base_file_applied_counterexample:
  "hd [CHR ''A'', CHR 0x02] = CHR ''A'' \<and>
   F_unpack_uint flint 64 (tl [CHR ''A'', CHR 0x02]) = Some (2, []) \<and>
   2 \<le> length ([] @ pending (conn (faulty [Fail 5]))) \<and>
   process_changeset_chunk_base flint (replica 0) ''postlist'' [CHR ''A'', CHR 0x02] None
     (faulty [Fail 5]) =
     (Inl (DatabaseError ''Failed to open db/postlisttmp'' (EOTHER 5)),
      (faulty [])\<lparr>conn := []\<rparr>) \<and>
   files ((faulty [])\<lparr>conn := []\<rparr>) ''db/postlist.baseA'' = None \<and>
   files ((faulty [])\<lparr>conn := []\<rparr>) ''db/postlisttmp'' = None"
  by (simp add: flint_uint process_changeset_chunk_base_def write_and_clear_changes_def
      get_message_chunk_def faulty_def replica_def open_creat_trunc_def syscall_def
      next_fault_def fun_eq_iff Let_def)

subsection \<open>The claim about the blocks of a chunk\<close>

lemma blocks_body_decoded:
  assumes fin: "blocks_end x bs buf (conn w) = Some (b, c')"
    and quiet: "faults w fd = []"
    and seek: "\<forall>(i, d) \<in> set (block_pairs x bs buf (conn w)). lseek_ok (i * bs)"
  shows "blocks_body x fd None bs buf w = (Inr (Break b), w\<lparr>conn := c'\<rparr>) \<and>
           block_pairs x bs buf (conn w) = [] \<or>
         (\<exists>i d buf' c1.
            blocks_body x fd None bs buf w =
              (Inr (Again buf'),
               w\<lparr>conn := c1, files := (files w)(fd \<mapsto> pwrite (content w fd) (i * bs) d)\<rparr>) \<and>
            blocks_end x bs buf' c1 = Some (b, c') \<and>
            block_pairs x bs buf (conn w) = (i, d) # block_pairs x bs buf' c1)"
proof -
  obtain r1 c1 where rc1: "read_chunk buf (REASONABLE_CHANGESET_SIZE x) (conn w) = (r1, c1)"
    by (cases "read_chunk buf (REASONABLE_CHANGESET_SIZE x) (conn w)")
  note g1 = get_message_chunk_eq [OF rc1]
  from fin rc1 obtain buf1 tag ptr where r1: "r1 = Inr buf1"
    and un: "F_unpack_uint x 32 buf1 = Some (tag, ptr)"
    by (subst (asm) blocks_end.simps) (auto split: sum.split_asm option.split_asm)
  note d = drop_to_suffix [OF un]
  show ?thesis
  proof (cases "tag = 0")
    case True
    with fin rc1 r1 un have "b = ptr" "c' = c1"
      by (subst (asm) blocks_end.simps, simp)+
    moreover from rc1 r1 un True have "block_pairs x bs buf (conn w) = []"
      by (subst block_pairs.simps) simp
    ultimately show ?thesis
      using g1 r1 un True d by (simp add: blocks_body_def write_and_clear_changes_def)
  next
    case False
    obtain r2 c2 where rc2: "read_chunk ptr bs c1 = (r2, c2)"
      by (cases "read_chunk ptr bs c1")
    from fin rc1 r1 un False rc2 obtain buf3 where r2: "r2 = Inr buf3" and len: "\<not> length buf3 < bs"
      and fin': "blocks_end x bs (drop bs buf3) c2 = Some (b, c')"
      by (subst (asm) blocks_end.simps) (auto split: sum.split_asm if_split_asm)
    from rc1 r1 un False rc2 r2 len
    have pairs: "block_pairs x bs buf (conn w) =
        (tag - 1, take bs buf3) # block_pairs x bs (drop bs buf3) c2"
      by (subst block_pairs.simps) simp
    with seek have sk: "lseek_ok (bs * (tag - 1))"
      by (simp add: mult.commute)
    have g2: "get_message_chunk ptr bs (w\<lparr>conn := c1\<rparr>) = (Inr buf3, w\<lparr>conn := c2\<rparr>)"
      using get_message_chunk_eq [of ptr bs "w\<lparr>conn := c1\<rparr>" r2 c2] rc2 r2 by simp
    have wr: "io_write_at fd (bs * (tag - 1)) (take bs buf3) (w\<lparr>conn := c2\<rparr>) =
        (Inr (), w\<lparr>conn := c2,
           files := (files w)(fd \<mapsto> pwrite (content w fd) ((tag - 1) * bs) (take bs buf3))\<rparr>)"
      using io_write_at_quiet [of "w\<lparr>conn := c2\<rparr>" fd "bs * (tag - 1)" "take bs buf3"] quiet
      by (simp add: content_def mult.commute)
    have "blocks_body x fd None bs buf w =
        (Inr (Again (drop bs buf3)),
         w\<lparr>conn := c2,
           files := (files w)(fd \<mapsto> pwrite (content w fd) ((tag - 1) * bs) (take bs buf3))\<rparr>)"
      using g1 r1 un False d g2 len sk wr
      by (simp add: blocks_body_def write_and_clear_changes_def Let_def)
    with fin' pairs show ?thesis
      by blast
  qed
qed

lemma blocks_loop_decoded:
  assumes "blocks_end x bs buf (conn w) = Some (b, c')"
    and "faults w fd = []"
    and "\<forall>(i, d) \<in> set (block_pairs x bs buf (conn w)). lseek_ok (i * bs)"
  shows "\<exists>w'. blocks_loop x fd None bs buf w = (Inr b, w') \<and> conn w' = c' \<and> faults w' fd = []"
  using assms
proof (induction "block_pairs x bs buf (conn w)" arbitrary: buf w)
  case Nil
  from blocks_body_decoded [OF Nil(2-4)] Nil(1)
  have "blocks_body x fd None bs buf w = (Inr (Break b), w\<lparr>conn := c'\<rparr>)"
    by auto
  from blocks_loop_Break [OF this] Nil(3) show ?case
    by simp
next
  case (Cons p ps)
  from blocks_body_decoded [OF Cons(3-5)] Cons(2) obtain i d buf' c1 where
    body: "blocks_body x fd None bs buf w =
              (Inr (Again buf'),
               w\<lparr>conn := c1, files := (files w)(fd \<mapsto> pwrite (content w fd) (i * bs) d)\<rparr>)"
    and fin: "blocks_end x bs buf' c1 = Some (b, c')"
    and pairs: "block_pairs x bs buf (conn w) = (i, d) # block_pairs x bs buf' c1"
    by auto
  let ?w1 = "w\<lparr>conn := c1, files := (files w)(fd \<mapsto> pwrite (content w fd) (i * bs) d)\<rparr>"
  from pairs Cons(2) have ps: "ps = block_pairs x bs buf' (conn ?w1)"
    by simp
  from pairs Cons(5) have sk: "\<forall>(i, d) \<in> set (block_pairs x bs buf' (conn ?w1)). lseek_ok (i * bs)"
    by simp
  from fin have fin1: "blocks_end x bs buf' (conn ?w1) = Some (b, c')"
    by simp
  from Cons(4) have q1: "faults ?w1 fd = []"
    by simp
  from Cons(1) [OF ps fin1 q1 sk] blocks_loop_Again [OF body] show ?case
    by simp
qed

lemma blocks_chunk_applied_quiet:
  assumes size: "F_unpack_uint x 32 buf = Some (bs, ptr)"
    and fin: "blocks_end x bs ptr (conn w) = Some (b, c')"
    and seek: "\<forall>(i, d) \<in> set (block_pairs x bs ptr (conn w)). lseek_ok (i * bs)"
    and quiet: "faults w (db_path r t) = []"
  shows "\<exists>w'. process_changeset_chunk_blocks x r t buf None w = (Inr b, w') \<and> conn w' = c'"
proof -
  let ?w3 = "if files w (db_path r t) = None
      then w\<lparr>files := (files w)(db_path r t \<mapsto> [])\<rparr> else w"
  have o: "open_db_file (db_path r t) w = (Inr (), ?w3)"
    using quiet by (rule open_db_file_quiet)
  have c3: "conn ?w3 = conn w" and q3: "faults ?w3 (db_path r t) = []"
    using quiet by simp_all
  from blocks_loop_decoded [of x bs ptr ?w3 b c' "db_path r t"] fin seek c3 q3
  obtain w4 where l: "blocks_loop x (db_path r t) None bs ptr ?w3 = (Inr b, w4)"
    and c4: "conn w4 = c'" and q4: "faults w4 (db_path r t) = []"
    by auto
  from io_sync_quiet [OF q4] have sy: "io_sync (db_path r t) w4 = (Inr (), w4)" .
  from size o l sy c4 drop_to_suffix [OF size] show ?thesis
    by (simp add: process_changeset_chunk_blocks_def write_and_clear_changes_def Let_def
        db_path_def)
qed

lemma sim_blocks_chunk:
  assumes "cfd = None \<or> nf \<and> cfd = Some a" and "a \<noteq> db_path r t"
  shows "sim a c nf (process_changeset_chunk_blocks x r t buf cfd)
           (process_changeset_chunk_blocks x r t buf None)"
  unfolding process_changeset_chunk_blocks_def [abs_def] Let_def
  using assms(2)
  by (intro sim_steps sim_open_db_file sim_blocks_loop assms(1)) (auto simp: db_path_def)

lemma blocks_chunk_applied:
  assumes size: "F_unpack_uint x 32 buf = Some (bs, ptr)"
    and fin: "blocks_end x bs ptr (conn w) = Some (b, c')"
    and seek: "\<forall>(i, d) \<in> set (block_pairs x bs ptr (conn w)). lseek_ok (i * bs)"
    and quiet: "faults w (db_path r t) = []"
    and cfd: "cfd = None \<or> (\<exists>a. cfd = Some a \<and> a \<noteq> db_path r t \<and> faults w a = [])"
  shows "\<exists>w'. process_changeset_chunk_blocks x r t buf cfd w = (Inr b, w') \<and> conn w' = c'"
proof (cases cfd)
  case None
  with blocks_chunk_applied_quiet [OF size fin seek quiet] show ?thesis
    by simp
next
  case (Some a)
  with cfd have a: "a \<noteq> db_path r t" "faults w a = []"
    by simp_all
  from blocks_chunk_applied_quiet [OF size fin seek quiet] obtain w0 where
    r0: "process_changeset_chunk_blocks x r t buf None w = (Inr b, w0)" and c0: "conn w0 = c'"
    by blast
  have "sim a (files w a) True (process_changeset_chunk_blocks x r t buf (Some a))
      (process_changeset_chunk_blocks x r t buf None)"
    by (rule sim_blocks_chunk) (simp_all add: a)
  from sim_same_result [OF this a(2) r0] obtain w' where
    run: "process_changeset_chunk_blocks x r t buf (Some a) w = (Inr b, w')"
    and w': "restore a (files w a) w' = w0"
    by blast
  from arg_cong [OF w', of conn] c0 have "conn w' = c'"
    by simp
  with run Some show ?thesis
    by simp
qed

text \<open>
  C3 (corrected). When a block chunk has been applied (the call returns; the archival
  descriptor is not the data file), the chunk has decoded as a block size \<open>bs\<close> and a
  sequence of pairs (index, bytes), every one with \<open>bs\<close> bytes, and the content of the
  table's data file is what writing these blocks in the order of the stream, each at the
  byte offset \<open>index * bs\<close>, makes of the content it had. So for every index that occurs
  in the sequence, the \<open>bs\<close> bytes of the file at \<open>index * bs\<close> are the bytes of the last
  pair with that index (\<open>map_of\<close> on the reversed sequence finds the last one). A chunk
  that decodes as a block size and pairs up to a tag 0 is applied in this way, the call
  returning what follows the tag 0, provided that every offset \<open>index * bs\<close> fits the file
  offset and that the medium does nothing to the system calls on the data file and on
  the archival file.
\<close>

theorem blocks_written_in_stream_order:
  "(process_changeset_chunk_blocks x r t buf cfd w = (Inr b, w') \<and> cfd \<noteq> Some (db_path r t) \<longrightarrow>
      (\<exists>bs ptr. F_unpack_uint x 32 buf = Some (bs, ptr) \<and>
         content w' (db_path r t) =
           write_blocks bs (content w (db_path r t)) (block_pairs x bs ptr (conn w)) \<and>
         (\<forall>(i, d) \<in> set (block_pairs x bs ptr (conn w)).
            length d = bs \<and>
            Some (take bs (drop (i * bs) (content w' (db_path r t)))) =
              map_of (rev (block_pairs x bs ptr (conn w))) i))) \<and>
   (F_unpack_uint x 32 buf = Some (bs, ptr) \<and> blocks_end x bs ptr (conn w) = Some (rest, c') \<and>
    (\<forall>(i, d) \<in> set (block_pairs x bs ptr (conn w)). lseek_ok (i * bs)) \<and>
    faults w (db_path r t) = [] \<and>
    (cfd = None \<or> (\<exists>a. cfd = Some a \<and> a \<noteq> db_path r t \<and> faults w a = [])) \<longrightarrow>
      (\<exists>v. process_changeset_chunk_blocks x r t buf cfd w = (Inr rest, v) \<and> conn v = c' \<and>
         content v (db_path r t) =
           write_blocks bs (content w (db_path r t)) (block_pairs x bs ptr (conn w)) \<and>
         (\<forall>(i, d) \<in> set (block_pairs x bs ptr (conn w)).
            length d = bs \<and>
            Some (take bs (drop (i * bs) (content v (db_path r t)))) =
              map_of (rev (block_pairs x bs ptr (conn w))) i)))"
proof (intro conjI impI)
  assume "process_changeset_chunk_blocks x r t buf cfd w = (Inr b, w') \<and> cfd \<noteq> Some (db_path r t)"
  then show "\<exists>bs ptr. F_unpack_uint x 32 buf = Some (bs, ptr) \<and>
         content w' (db_path r t) =
           write_blocks bs (content w (db_path r t)) (block_pairs x bs ptr (conn w)) \<and>
         (\<forall>(i, d) \<in> set (block_pairs x bs ptr (conn w)).
            length d = bs \<and>
            Some (take bs (drop (i * bs) (content w' (db_path r t)))) =
              map_of (rev (block_pairs x bs ptr (conn w))) i)"
    by (auto dest!: blocks_chunk_content)
next
  assume h: "F_unpack_uint x 32 buf = Some (bs, ptr) \<and> blocks_end x bs ptr (conn w) = Some (rest, c') \<and>
    (\<forall>(i, d) \<in> set (block_pairs x bs ptr (conn w)). lseek_ok (i * bs)) \<and>
    faults w (db_path r t) = [] \<and>
    (cfd = None \<or> (\<exists>a. cfd = Some a \<and> a \<noteq> db_path r t \<and> faults w a = []))"
  then have cfd: "cfd \<noteq> Some (db_path r t)"
    by auto
  from h blocks_chunk_applied [of x buf bs ptr w rest c' r t cfd] obtain v where
    run: "process_changeset_chunk_blocks x r t buf cfd w = (Inr rest, v)" and c: "conn v = c'"
    by blast
  from blocks_chunk_content [OF run cfd] h
  have "content v (db_path r t) =
           write_blocks bs (content w (db_path r t)) (block_pairs x bs ptr (conn w)) \<and>
         (\<forall>(i, d) \<in> set (block_pairs x bs ptr (conn w)).
            length d = bs \<and>
            Some (take bs (drop (i * bs) (content v (db_path r t)))) =
              map_of (rev (block_pairs x bs ptr (conn w))) i)"
    by auto
  with run c show "\<exists>v. process_changeset_chunk_blocks x r t buf cfd w = (Inr rest, v) \<and> conn v = c' \<and>
         content v (db_path r t) =
           write_blocks bs (content w (db_path r t)) (block_pairs x bs ptr (conn w)) \<and>
         (\<forall>(i, d) \<in> set (block_pairs x bs ptr (conn w)).
            length d = bs \<and>
            Some (take bs (drop (i * bs) (content v (db_path r t)))) =
              map_of (rev (block_pairs x bs ptr (conn w))) i)"
    by blast
qed

lemma three_blocks_pairs:
  "block_pairs flint 4 three_blocks [] = [(1, ''abcd''), (0, ''0001''), (1, ''wxyz'')]"
  by (simp add: three_blocks_def block_pairs.simps [of _ _ "_ # _"] block_pairs.simps [of _ _ "[]"]
      flint_uint32)

lemma three_blocks_end: "blocks_end flint 4 three_blocks [] = Some ([], [])"
  by (simp add: three_blocks_def blocks_end.simps [of _ _ "_ # _"] blocks_end.simps [of _ _ "[]"]
      flint_uint32)

lemma two_blocks_end: "blocks_end flint 4 two_blocks [] = Some ([], [])"
  by (simp add: two_blocks_def blocks_end.simps [of _ _ "_ # _"] blocks_end.simps [of _ _ "[]"]
      flint_uint32)

lemma three_blocks_written:
  "write_blocks 4 [] [(1, ''abcd''), (0, ''0001''), (1, ''wxyz'')] = ''0001wxyz''"
  by (simp add: write_blocks_def pwrite_def)

text \<open>
  C3, at an input: blocks of size 4 for the indices 1, 0 and 1 again, with \<open>abcd\<close>, \<open>0001\<close>
  and \<open>wxyz\<close>, for a table whose data file does not exist yet. The file ends as
  \<open>0001wxyz\<close>.
\<close>

theorem blocks_written_in_stream_order_witness:
  "fst (process_changeset_chunk_blocks flint (replica 0) ''a'' (CHR 0x04 # three_blocks) None
      (disk [])) = Inr [] \<and>
   block_pairs flint 4 three_blocks [] = [(1, ''abcd''), (0, ''0001''), (1, ''wxyz'')] \<and>
   content (snd (process_changeset_chunk_blocks flint (replica 0) ''a'' (CHR 0x04 # three_blocks) None
      (disk []))) ''db/a.DB'' = ''0001wxyz'' \<and>
   take 4 (drop (1 * 4) (content (snd (process_changeset_chunk_blocks flint (replica 0) ''a''
      (CHR 0x04 # three_blocks) None (disk []))) ''db/a.DB'')) = ''wxyz'' \<and>
   take 4 (drop (0 * 4) (content (snd (process_changeset_chunk_blocks flint (replica 0) ''a''
      (CHR 0x04 # three_blocks) None (disk []))) ''db/a.DB'')) = ''0001''"
proof -
  have c: "conn (disk []) = []" and p: "db_path (replica 0) ''a'' = ''db/a.DB''"
    and e: "content (disk []) p = []" for p
    by (simp_all add: disk_def db_path_def replica_def content_def)
  have "F_unpack_uint flint 32 (CHR 0x04 # three_blocks) = Some (4, three_blocks) \<and>
    blocks_end flint 4 three_blocks (conn (disk [])) = Some ([], []) \<and>
    (\<forall>(i, d) \<in> set (block_pairs flint 4 three_blocks (conn (disk []))). lseek_ok (i * 4)) \<and>
    faults (disk []) (db_path (replica 0) ''a'') = [] \<and>
    (None = None \<or> (\<exists>a. None = Some a \<and> a \<noteq> db_path (replica 0) ''a'' \<and> faults (disk []) a = []))"
    by (simp add: c flint_uint32 three_blocks_end three_blocks_pairs lseek_ok_def) (simp add: disk_def)
  from blocks_written_in_stream_order [THEN conjunct2, THEN mp, OF this]
  obtain v where run: "process_changeset_chunk_blocks flint (replica 0) ''a''
      (CHR 0x04 # three_blocks) None (disk []) = (Inr [], v)"
    and cont: "content v (db_path (replica 0) ''a'') =
      write_blocks 4 (content (disk []) (db_path (replica 0) ''a''))
        (block_pairs flint 4 three_blocks (conn (disk [])))"
    by blast
  from cont have v: "content v ''db/a.DB'' = ''0001wxyz''"
    by (simp only: c p e three_blocks_pairs three_blocks_written)
  have "process_changeset_chunk_blocks flint (replica 0) ''a'' (CHR 0x04 # three_blocks) None
      (disk []) = (Inr [], v) \<and> None \<noteq> Some (db_path (replica 0) ''a'')"
    using run by simp
  from blocks_written_in_stream_order [THEN conjunct1, THEN mp, OF this]
  have "\<forall>(i, d) \<in> set (block_pairs flint 4 three_blocks (conn (disk []))).
      Some (take 4 (drop (i * 4) (content v (db_path (replica 0) ''a'')))) =
        map_of (rev (block_pairs flint 4 three_blocks (conn (disk [])))) i"
    by (auto simp: flint_uint32)
  then have "take 4 (drop (1 * 4) (content v ''db/a.DB'')) = ''wxyz''"
    and "take 4 (drop (0 * 4) (content v ''db/a.DB'')) = ''0001''"
    by (simp_all add: c p three_blocks_pairs)
  with run v show ?thesis
    by (simp add: three_blocks_pairs)
qed

text \<open>
  C3 as stated fails: the chunk decodes as two blocks for the index 0, the last with
  the bytes \<open>abcd\<close>, but the data file, which holds \<open>zzzz\<close>, cannot be opened (code 13).
  The call ends with a \<open>DatabaseError\<close> and the file still holds \<open>zzzz\<close> at the index 0.
\<close>

theorem blocks_written_in_stream_order_counterexample:
  "F_unpack_uint flint 32 (CHR 0x04 # two_blocks) = Some (4, two_blocks) \<and>
   block_pairs flint 4 two_blocks [] = [(0, ''0001''), (0, ''abcd'')] \<and>
   blocks_end flint 4 two_blocks [] = Some ([], []) \<and>
   process_changeset_chunk_blocks flint (replica 0) ''a'' (CHR 0x04 # two_blocks) None
     (table_a_faults ''zzzz'' [Fail 13]) =
     (Inl (DatabaseError ''Failed to open db/a.DB'' (EOTHER 13)), table_a ''zzzz'') \<and>
   take 4 (drop (0 * 4) (content (table_a ''zzzz'') ''db/a.DB'')) = ''zzzz''"
  by (simp add: flint_uint32 two_blocks_pairs two_blocks_end process_changeset_chunk_blocks_def
      write_and_clear_changes_def replica_def open_db_file_def open_wronly_def syscall_def
      next_fault_def table_a_def table_a_faults_def file_exists_def content_def Let_def fun_eq_iff)

subsection \<open>The claim about unknown items, once more\<close>

text \<open>
  C9 (corrected). Whenever the loop of the driver finds an item whose type is not 0, 1
  or 2, the loop ends with an error at that item: a \<open>NetworkError\<close>, or, archival being
  enabled, the \<open>DatabaseError\<close> of a failed write to the archival file, which is written
  before the type is dispatched on. Nothing more is read from the connection and no
  file other than the archival file is changed, so no later item is applied. When the
  name of the table is well formed and a byte follows it, the error is that of the
  write to the archival file when this write fails, and otherwise the \<open>NetworkError\<close>
  \<open>Unrecognised item type in changeset\<close>. A pass that goes round again leaves the loop
  as it is from the new state, so this holds at any item of the stream; and an error of
  the loop is the error of the whole apply.
\<close>

theorem unknown_chunk_tag:
  "(get_message_chunk buf (REASONABLE_CHANGESET_SIZE x) w = (Inr (tag # ptr), w1) \<and>
    of_char tag \<notin> {0, 1, 2 :: nat} \<longrightarrow>
      (\<exists>err w'. chunks_loop x r cfd buf w = (Inl err, w') \<and>
         ((\<exists>m. err = NetworkError m) \<or> cfd \<noteq> None \<and> (\<exists>m c. err = DatabaseError m c)) \<and>
         conn w' = conn w1 \<and> (\<forall>q. cfd \<noteq> Some q \<longrightarrow> files w' q = files w q))) \<and>
   (get_message_chunk buf (REASONABLE_CHANGESET_SIZE x) w = (Inr (tag # ptr), w1) \<and>
    of_char tag \<notin> {0, 1, 2 :: nat} \<and>
    F_unpack_string x ptr = Some (t, ptr') \<and> t \<noteq> [] \<and> list_all is_table_char t \<and> ptr' \<noteq> [] \<and>
    write_and_clear_changes cfd (tag # ptr) (length (tag # ptr) - length ptr') w1 = (res, w2) \<longrightarrow>
      chunks_loop x r cfd buf w =
        (case res of
           Inl e \<Rightarrow> Inl e
         | Inr b \<Rightarrow> Inl (NetworkError ''Unrecognised item type in changeset''), w2) \<and>
      (cfd = None \<longrightarrow> w2 = w1)) \<and>
   (chunks_body x r cfd buf w = (Inr (Again buf'), w') \<longrightarrow>
      chunks_loop x r cfd buf w = chunks_loop x r cfd buf' w') \<and>
   (changeset_start x r orn valid w0 = (Inr (e, cfd, buf0), w00) \<and>
    chunks_loop x r cfd buf0 w00 = (Inl err, w') \<longrightarrow>
      apply_changeset_from_conn x r orn valid w0 = (Inl err, w'))"
proof (intro conjI impI)
  assume a: "get_message_chunk buf (REASONABLE_CHANGESET_SIZE x) w = (Inr (tag # ptr), w1) \<and>
    of_char tag \<notin> {0, 1, 2 :: nat}"
  then obtain err w' where "chunks_body x r cfd buf w = (Inl err, w')"
    and "(\<exists>m. err = NetworkError m) \<or> cfd \<noteq> None \<and> (\<exists>m c. err = DatabaseError m c)"
    and "conn w' = conn w1" and "\<forall>q. cfd \<noteq> Some q \<longrightarrow> files w' q = files w q"
    using chunks_body_unknown_tag [of buf x w tag ptr w1 r cfd] by auto
  then show "\<exists>err w'. chunks_loop x r cfd buf w = (Inl err, w') \<and>
         ((\<exists>m. err = NetworkError m) \<or> cfd \<noteq> None \<and> (\<exists>m c. err = DatabaseError m c)) \<and>
         conn w' = conn w1 \<and> (\<forall>q. cfd \<noteq> Some q \<longrightarrow> files w' q = files w q)"
    by (auto dest: chunks_loop_Inl)
next
  assume a: "get_message_chunk buf (REASONABLE_CHANGESET_SIZE x) w = (Inr (tag # ptr), w1) \<and>
    of_char tag \<notin> {0, 1, 2 :: nat} \<and>
    F_unpack_string x ptr = Some (t, ptr') \<and> t \<noteq> [] \<and> list_all is_table_char t \<and> ptr' \<noteq> [] \<and>
    write_and_clear_changes cfd (tag # ptr) (length (tag # ptr) - length ptr') w1 = (res, w2)"
  then have "chunks_body x r cfd buf w =
        (case res of
           Inl e \<Rightarrow> Inl e
         | Inr b \<Rightarrow> Inl (NetworkError ''Unrecognised item type in changeset''), w2)"
    by (cases res) (simp_all add: chunks_body_def)
  then show "chunks_loop x r cfd buf w =
        (case res of
           Inl e \<Rightarrow> Inl e
         | Inr b \<Rightarrow> Inl (NetworkError ''Unrecognised item type in changeset''), w2)"
    by (cases res) (simp_all add: chunks_loop_Inl)
next
  assume "get_message_chunk buf (REASONABLE_CHANGESET_SIZE x) w = (Inr (tag # ptr), w1) \<and>
    of_char tag \<notin> {0, 1, 2 :: nat} \<and>
    F_unpack_string x ptr = Some (t, ptr') \<and> t \<noteq> [] \<and> list_all is_table_char t \<and> ptr' \<noteq> [] \<and>
    write_and_clear_changes cfd (tag # ptr) (length (tag # ptr) - length ptr') w1 = (res, w2)"
    and "cfd = None"
  then show "w2 = w1"
    by (simp add: write_and_clear_changes_def)
next
  assume "chunks_body x r cfd buf w = (Inr (Again buf'), w')"
  then show "chunks_loop x r cfd buf w = chunks_loop x r cfd buf' w'"
    by (rule chunks_loop_Again)
next
  assume "changeset_start x r orn valid w0 = (Inr (e, cfd, buf0), w00) \<and>
    chunks_loop x r cfd buf0 w00 = (Inl err, w')"
  then show "apply_changeset_from_conn x r orn valid w0 = (Inl err, w')"
    by (simp add: apply_changeset_from_conn_loop)
qed

lemma base_item_b:
  "chunks_body flint (replica k) None
     (CHR 0x01 # CHR 0x01 # CHR ''b'' # CHR ''A'' # CHR 0x02 # CHR ''h'' # CHR ''i'' # rest) (disk []) =
   (Inr (Again rest), written_b)"
proof -
  have u: "F_unpack_uint flint 64 (CHR 0x02 # CHR ''h'' # CHR ''i'' # rest) =
      Some (2, CHR ''h'' # CHR ''i'' # rest)"
    by (simp add: flint_uint)
  have rd: "read_chunk (CHR ''h'' # CHR ''i'' # rest) 2 (conn (disk [])) =
      (Inr (CHR ''h'' # CHR ''i'' # rest), [])"
    by (simp add: disk_def)
  have q: "faults (disk []) (tmp_path (replica k) ''b'') = []"
    by (simp add: disk_def)
  have "process_changeset_chunk_base flint (replica k) ''b''
      (CHR ''A'' # CHR 0x02 # CHR ''h'' # CHR ''i'' # rest) None (disk []) = (Inr rest, written_b)"
    using base_applied_quiet [OF _ u rd _ q, of "CHR ''A''"]
    by (simp add: written_b_def disk_def tmp_path_def base_path_def replica_def)
  then show ?thesis
    by (simp add: chunks_body_def chunk_at_end flint_string is_table_char_def
        write_and_clear_changes_def)
qed

text \<open>
  C9, at two inputs: an item of type 3 for the table \<open>a\<close> met by the loop; and a whole
  apply of a changeset with a base file for the table \<open>b\<close>, an item of type 3 and a base
  file for the table \<open>c\<close>. The first base file is written, the second is not.
\<close>

theorem unknown_chunk_tag_witness:
  "chunks_loop flint (replica 0) None [] (disk [Data [CHR 0x03, CHR 0x01, CHR ''a'', CHR 0x00]]) =
     (Inl (NetworkError ''Unrecognised item type in changeset''), disk []) \<and>
   apply_changeset_from_conn flint (replica 0) 5 True
     (disk [Data (changeset56
        ([CHR 0x01, CHR 0x01, CHR ''b'', CHR ''A'', CHR 0x02, CHR ''h'', CHR ''i''] @
         [CHR 0x03, CHR 0x01, CHR ''a''] @
         [CHR 0x01, CHR 0x01, CHR ''c'', CHR ''A'', CHR 0x02, CHR ''y'', CHR ''o''] @
         [CHR 0x00, CHR 0x06]))]) =
     (Inl (NetworkError ''Unrecognised item type in changeset''), written_b) \<and>
   files written_b ''db/b.baseA'' = Some ''hi'' \<and> files written_b ''db/c.baseA'' = None"
proof (intro conjI)
  have "get_message_chunk [] (REASONABLE_CHANGESET_SIZE flint)
      (disk [Data [CHR 0x03, CHR 0x01, CHR ''a'', CHR 0x00]]) =
        (Inr (CHR 0x03 # [CHR 0x01, CHR ''a'', CHR 0x00]), disk []) \<and>
    of_char (CHR 0x03) \<notin> {0, 1, 2 :: nat} \<and>
    F_unpack_string flint [CHR 0x01, CHR ''a'', CHR 0x00] = Some (''a'', [CHR 0x00]) \<and>
    ''a'' \<noteq> [] \<and> list_all is_table_char ''a'' \<and> [CHR 0x00] \<noteq> [] \<and>
    write_and_clear_changes None (CHR 0x03 # [CHR 0x01, CHR ''a'', CHR 0x00])
      (length (CHR 0x03 # [CHR 0x01, CHR ''a'', CHR 0x00]) - length [CHR 0x00]) (disk []) =
        (Inr [CHR 0x00], disk [])"
    by (simp add: disk_first_chunk flint_string is_table_char_def write_and_clear_changes_def)
  from unknown_chunk_tag [THEN conjunct2, THEN conjunct1, THEN mp, OF this,
      THEN conjunct1, of "replica 0"]
  show "chunks_loop flint (replica 0) None [] (disk [Data [CHR 0x03, CHR 0x01, CHR ''a'', CHR 0x00]]) =
     (Inl (NetworkError ''Unrecognised item type in changeset''), disk [])"
    by simp
next
  let ?rest = "[CHR 0x01, CHR 0x01, CHR ''c'', CHR ''A'', CHR 0x02, CHR ''y'', CHR ''o'',
      CHR 0x00, CHR 0x06]"
  let ?items = "[CHR 0x01, CHR 0x01, CHR ''b'', CHR ''A'', CHR 0x02, CHR ''h'', CHR ''i''] @
         [CHR 0x03, CHR 0x01, CHR ''a''] @
         [CHR 0x01, CHR 0x01, CHR ''c'', CHR ''A'', CHR 0x02, CHR ''y'', CHR ''o''] @
         [CHR 0x00, CHR 0x06]"
  have st: "changeset_start flint (replica 0) 5 True (disk [Data (changeset56 ?items)]) =
      (Inr (6, None, ?items), disk [])"
    by (rule changeset56_start) simp
  have "chunks_body flint (replica 0) None ?items (disk []) =
      (Inr (Again (CHR 0x03 # CHR 0x01 # CHR ''a'' # ?rest)), written_b)"
    using base_item_b [of 0 "CHR 0x03 # CHR 0x01 # CHR ''a'' # ?rest"] by simp
  from unknown_chunk_tag [THEN conjunct2, THEN conjunct2, THEN conjunct1, THEN mp, OF this]
  have again: "chunks_loop flint (replica 0) None ?items (disk []) =
      chunks_loop flint (replica 0) None (CHR 0x03 # CHR 0x01 # CHR ''a'' # ?rest) written_b" .
  have "get_message_chunk (CHR 0x03 # CHR 0x01 # CHR ''a'' # ?rest) (REASONABLE_CHANGESET_SIZE flint)
      written_b = (Inr (CHR 0x03 # (CHR 0x01 # CHR ''a'' # ?rest)), written_b) \<and>
    of_char (CHR 0x03) \<notin> {0, 1, 2 :: nat} \<and>
    F_unpack_string flint (CHR 0x01 # CHR ''a'' # ?rest) = Some (''a'', ?rest) \<and>
    ''a'' \<noteq> [] \<and> list_all is_table_char ''a'' \<and> ?rest \<noteq> [] \<and>
    write_and_clear_changes None (CHR 0x03 # (CHR 0x01 # CHR ''a'' # ?rest))
      (length (CHR 0x03 # (CHR 0x01 # CHR ''a'' # ?rest)) - length ?rest) written_b =
        (Inr ?rest, written_b)"
    by (simp add: chunk_at_end_of_stream written_b_def flint_string is_table_char_def
        write_and_clear_changes_def)
  from unknown_chunk_tag [THEN conjunct2, THEN conjunct1, THEN mp, OF this,
      THEN conjunct1, of "replica 0"] again
  have "chunks_loop flint (replica 0) None ?items (disk []) =
      (Inl (NetworkError ''Unrecognised item type in changeset''), written_b)"
    by simp
  with st show "apply_changeset_from_conn flint (replica 0) 5 True
     (disk [Data (changeset56 ?items)]) =
     (Inl (NetworkError ''Unrecognised item type in changeset''), written_b)"
    by (intro unknown_chunk_tag [THEN conjunct2, THEN conjunct2, THEN conjunct2, THEN mp]) simp
next
  show "files written_b ''db/b.baseA'' = Some ''hi''"
    by (simp add: written_b_def)
next
  show "files written_b ''db/c.baseA'' = None"
    by (simp add: written_b_def)
qed

lemma failing_archive_start:
  "changeset_start flint (replica 1) 5 True
     (archive_faults (NoFault # NoFault # fs) [Data (changeset56 items)]) =
   (Inr (6, Some ''db/changes5'', items),
    (archived56 (header56 (CHR 0x00)))\<lparr>faults := faults (archive_faults fs [])\<rparr>)"
proof -
  have t: "take 16 (changeset56 items) = header56 (CHR 0x00)"
    by (simp add: changeset56_def header56_def)
  have s: "str 5 = ''5''"
    by (simp add: str.simps digit_def)
  have n: "REASONABLE_CHANGESET_SIZE flint = 1024"
    by (simp add: flint_def)
  show ?thesis
    by (simp add: changeset_start_def archive_faults_def get_message_chunk_def n)
       (simp add: changeset56_header replica_def create_changeset_file_def open_creat_trunc_def
          syscall_def next_fault_def write_and_clear_changes_def io_write_def write_fd_def
          content_def changeset56_length changeset56_drop t s archived56_def fun_eq_iff Let_def)
qed

text \<open>
  C9 as stated fails: archival is enabled and the third system call on the archival
  file, the write of the header of the item of type 3, fails with code 5. The apply
  ends with a \<open>DatabaseError\<close>, not with a \<open>NetworkError\<close>.
\<close>

theorem unknown_chunk_tag_counterexample:
  "of_char (CHR 0x03) \<notin> {0, 1, 2 :: nat} \<and>
   apply_changeset_from_conn flint (replica 1) 5 True
     (archive_faults [NoFault, NoFault, Fail 5]
        [Data (changeset56 [CHR 0x03, CHR 0x01, CHR ''a'', CHR 0x00])]) =
     (Inl (DatabaseError ''Error writing to file'' (EOTHER 5)), archived56 (header56 (CHR 0x00)))"
proof -
  have "chunks_body flint (replica 1) (Some ''db/changes5'') [CHR 0x03, CHR 0x01, CHR ''a'', CHR 0x00]
      ((archived56 (header56 (CHR 0x00)))\<lparr>faults := faults (archive_faults [Fail 5] [])\<rparr>) =
      (Inl (DatabaseError ''Error writing to file'' (EOTHER 5)), archived56 (header56 (CHR 0x00)))"
    by (simp add: chunks_body_def chunk_at_end_of_stream archived56_def archive_faults_def
        flint_string is_table_char_def write_and_clear_changes_def io_write_def write_fd_def
        syscall_def next_fault_def fun_eq_iff)
  then have "chunks_loop flint (replica 1) (Some ''db/changes5'')
      [CHR 0x03, CHR 0x01, CHR ''a'', CHR 0x00]
      ((archived56 (header56 (CHR 0x00)))\<lparr>faults := faults (archive_faults [Fail 5] [])\<rparr>) =
      (Inl (DatabaseError ''Error writing to file'' (EOTHER 5)), archived56 (header56 (CHR 0x00)))"
    by (rule chunks_loop_Inl)
  then show ?thesis
    by (simp add: apply_changeset_from_conn_loop failing_archive_start)
qed

subsection \<open>The Archival Sink, at an input\<close>

lemma table_a_loop_rest:
  "blocks_loop flint ''db/a.DB'' None 4 (two_blocks @ rest) (table_a []) = (Inr rest, table_a ''abcd'')"
  by (simp add: two_blocks_def blocks_loop_Again [OF table_a_block] blocks_loop_Break [OF table_a_end]
      pwrite_def)

lemma blocks_item_a:
  "chunks_body flint (replica 0) None
     (CHR 0x02 # CHR 0x01 # CHR ''a'' # CHR 0x04 # two_blocks @ rest) (disk []) =
   (Inr (Again rest), table_a ''abcd'')"
proof -
  have "process_changeset_chunk_blocks flint (replica 0) ''a'' (CHR 0x04 # two_blocks @ rest) None
      (disk []) = (Inr rest, table_a ''abcd'')"
    by (simp add: process_changeset_chunk_blocks_def flint_uint32 write_and_clear_changes_def
        replica_def table_a_created table_a_loop_rest table_a_sync)
  then show ?thesis
    by (simp add: chunks_body_def chunk_at_end flint_string is_table_char_def
        write_and_clear_changes_def two_blocks_def)
qed

lemma base_item_b_after_a:
  "chunks_body flint (replica 0) None
     (CHR 0x01 # CHR 0x01 # CHR ''b'' # CHR ''A'' # CHR 0x02 # CHR ''h'' # CHR ''i'' # rest)
     (table_a ''abcd'') =
   (Inr (Again rest), applied_ab)"
proof -
  have u: "F_unpack_uint flint 64 (CHR 0x02 # CHR ''h'' # CHR ''i'' # rest) =
      Some (2, CHR ''h'' # CHR ''i'' # rest)"
    by (simp add: flint_uint)
  have rd: "read_chunk (CHR ''h'' # CHR ''i'' # rest) 2 (conn (table_a ''abcd'')) =
      (Inr (CHR ''h'' # CHR ''i'' # rest), [])"
    by (simp add: table_a_def)
  have q: "faults (table_a ''abcd'') (tmp_path (replica 0) ''b'') = []"
    by (simp add: table_a_def)
  have "process_changeset_chunk_base flint (replica 0) ''b''
      (CHR ''A'' # CHR 0x02 # CHR ''h'' # CHR ''i'' # rest) None (table_a ''abcd'') =
      (Inr rest, applied_ab)"
    using base_applied_quiet [OF _ u rd _ q, of "CHR ''A''"]
    by (simp add: applied_ab_def table_a_def tmp_path_def base_path_def replica_def fun_eq_iff)
  then show ?thesis
    by (simp add: chunks_body_def table_a_chunk flint_string is_table_char_def
        write_and_clear_changes_def)
qed

lemma items_ab_applied:
  "apply_changeset_from_conn flint (replica 0) 5 True (disk [Data (changeset56 items_ab)]) =
     (Inr (pack 6), applied_ab)"
proof -
  have st: "changeset_start flint (replica 0) 5 True (disk [Data (changeset56 items_ab)]) =
      (Inr (6, None, items_ab), disk [])"
    by (rule changeset56_start) simp
  have 1: "chunks_loop flint (replica 0) None items_ab (disk []) =
      chunks_loop flint (replica 0) None
        ([CHR 0x01, CHR 0x01, CHR ''b'', CHR ''A'', CHR 0x02, CHR ''h'', CHR ''i''] @
         [CHR 0x00, CHR 0x06]) (table_a ''abcd'')"
    using chunks_loop_Again [OF blocks_item_a] by (simp add: items_ab_def)
  have 2: "chunks_loop flint (replica 0) None
        ([CHR 0x01, CHR 0x01, CHR ''b'', CHR ''A'', CHR 0x02, CHR ''h'', CHR ''i''] @
         [CHR 0x00, CHR 0x06]) (table_a ''abcd'') =
      chunks_loop flint (replica 0) None [CHR 0x00, CHR 0x06] applied_ab"
    using chunks_loop_Again [OF base_item_b_after_a] by simp
  have 3: "chunks_loop flint (replica 0) None [CHR 0x00, CHR 0x06] applied_ab =
      (Inr ([CHR 0x00, CHR 0x06], [CHR 0x06]), applied_ab)"
    by (simp add: chunks_loop.simps chunks_body_def chunk_at_end_of_stream applied_ab_def)
  have f: "changeset_footer flint 6 [CHR 0x06] = Inr 6"
    by (simp add: changeset_footer_def flint_uint)
  have p: "pack_uint flint 6 = pack 6"
    by (simp add: flint_def)
  from 1 2 3 have l: "chunks_loop flint (replica 0) None items_ab (disk []) =
      (Inr ([CHR 0x00, CHR 0x06], [CHR 0x06]), applied_ab)"
    by simp
  show ?thesis
    by (simp add: apply_changeset_from_conn_loop st l f p write_and_clear_changes_def)
qed

text \<open>
  C4, at an input: a changeset from revision 5 to 6 with two blocks for the table \<open>a\<close>
  and a base file for the table \<open>b\<close>, on an empty directory. With the retention count 0
  the apply returns and there is no file \<open>db/changes5\<close>; with the count 1 it returns the
  same result, the two tables are written and \<open>db/changes5\<close> holds the whole stream, the
  items included.
\<close>

theorem archival_gating_witness:
  "max_changesets (replica 0) \<le> 0 \<and> 0 < max_changesets (replica 1) \<and>
   db_dir (replica 0) = db_dir (replica 1) \<and>
   (\<forall>s. faults (disk [Data (changeset56 items_ab)]) (changes_path (replica 1) s) = []) \<and>
   apply_changeset_from_conn flint (replica 0) 5 True (disk [Data (changeset56 items_ab)]) =
     (Inr (pack 6), applied_ab) \<and>
   files applied_ab ''db/changes5'' = None \<and>
   fst (apply_changeset_from_conn flint (replica 1) 5 True (disk [Data (changeset56 items_ab)])) =
     Inr (pack 6) \<and>
   files (snd (apply_changeset_from_conn flint (replica 1) 5 True
     (disk [Data (changeset56 items_ab)]))) ''db/a.DB'' = Some ''abcd'' \<and>
   files (snd (apply_changeset_from_conn flint (replica 1) 5 True
     (disk [Data (changeset56 items_ab)]))) ''db/b.baseA'' = Some ''hi'' \<and>
   files (snd (apply_changeset_from_conn flint (replica 1) 5 True
     (disk [Data (changeset56 items_ab)]))) ''db/changes5'' = Some (changeset56 items_ab)"
proof -
  let ?w = "disk [Data (changeset56 items_ab)]"
  let ?E = "apply_changeset_from_conn flint (replica 1) 5 True ?w"
  have off: "max_changesets (replica 0) \<le> 0" and on: "0 < max_changesets (replica 1)"
    and dir: "db_dir (replica 0) = db_dir (replica 1)"
    by (simp_all add: replica_def)
  have quiet: "\<forall>s. faults ?w (changes_path (replica 1) s) = []"
    and none: "files ?w p = None" and pend: "pending (conn ?w) = changeset56 items_ab" for p
    by (simp_all add: disk_def)
  note t = archival_gating [OF off on dir prod.collapse [symmetric], of flint 5 True ?w]
  from t [THEN conjunct1, rule_format, of 5] have 1: "files applied_ab ''db/changes5'' = None"
    by (simp add: items_ab_applied none changes5)
  from t [THEN conjunct2, THEN conjunct1, THEN mp, OF quiet] obtain s where
    2: "(Inr (pack 6), applied_ab) =
      (fst ?E, (snd ?E)\<lparr>files := (files (snd ?E))(changes_path (replica 1) s := None)\<rparr>)"
    by (auto simp: items_ab_applied none)
  then have res: "fst ?E = Inr (pack 6)"
    and w': "applied_ab = (snd ?E)\<lparr>files := (files (snd ?E))(changes_path (replica 1) s := None)\<rparr>"
    by simp_all
  from arg_cong [OF w', of conn] have c: "conn (snd ?E) = []"
    by (simp add: applied_ab_def)
  have "changes_path (replica 1) s \<noteq> db_path (replica 1) ''a''"
    and "changes_path (replica 1) s \<noteq> base_path (replica 1) ''b'' (CHR ''A'')"
    using changes_path_not_table [of "replica 1" s] by (auto simp: is_table_file_def)
  then have ne: "changes_path (replica 1) s \<noteq> ''db/a.DB''"
    "changes_path (replica 1) s \<noteq> ''db/b.baseA''"
    by (simp_all add: db_path_def base_path_def replica_def)
  from arg_cong [OF w', of "\<lambda>v. files v ''db/a.DB''"] ne(1)
  have a: "files (snd ?E) ''db/a.DB'' = Some ''abcd''"
    by (simp add: applied_ab_def)
  from arg_cong [OF w', of "\<lambda>v. files v ''db/b.baseA''"] ne(2)
  have b: "files (snd ?E) ''db/b.baseA'' = Some ''hi''"
    by (simp add: applied_ab_def)
  from t [THEN conjunct2, THEN conjunct2, rule_format, OF res] obtain s' e buf w1 ptr arch where
    "get_message_chunk [] (REASONABLE_CHANGESET_SIZE flint) ?w = (Inr buf, w1)"
    and "changeset_header flint buf = Inr (s', e, ptr)"
    and "files (snd ?E) (changes_path (replica 1) s') = Some arch"
    and "arch @ pending (conn (snd ?E)) = pending (conn ?w)"
    by blast
  then have 3: "files (snd ?E) ''db/changes5'' = Some (changeset56 items_ab)"
    using c pend by (auto simp: disk_first_chunk changeset56_header changes5)
  from off on dir quiet items_ab_applied 1 res a b 3 show ?thesis
    by (intro conjI)
qed

text \<open>
  C4 as stated fails: creating the archival file fails with code 5. With the retention
  count 0 the apply of the changeset returns; with the count 1 the same apply in the
  same world ends with a \<open>DatabaseError\<close>.
\<close>

theorem archival_gating_counterexample:
  "apply_changeset_from_conn flint (replica 0) 5 True
     (archive_faults [Fail 5] [Data (changeset56 [CHR 0x00, CHR 0x06])]) =
     (Inr (pack 6), archive_faults [Fail 5] []) \<and>
   apply_changeset_from_conn flint (replica 1) 5 True
     (archive_faults [Fail 5] [Data (changeset56 [CHR 0x00, CHR 0x06])]) =
     (Inl (DatabaseError ''Couldn't open changeset db/changes5 to write'' (EOTHER 5)), disk [])"
proof -
  let ?w = "archive_faults [Fail 5] [Data (changeset56 [CHR 0x00, CHR 0x06])]"
  let ?v = "archive_faults [Fail 5] []"
  have n: "REASONABLE_CHANGESET_SIZE flint = 1024"
    by (simp add: flint_def)
  have g: "get_message_chunk [] (REASONABLE_CHANGESET_SIZE flint) ?w =
      (Inr (changeset56 [CHR 0x00, CHR 0x06]), ?v)"
    unfolding n by (simp add: get_message_chunk_def archive_faults_def)
  have l: "lock_failure ?w = None"
    by (simp add: archive_faults_def)
  have s: "str 5 = ''5''"
    by (simp add: str.simps digit_def)
  have st0: "changeset_start flint (replica 0) 5 True ?w = (Inr (6, None, [CHR 0x00, CHR 0x06]), ?v)"
    by (simp add: changeset_start_def l g changeset56_header replica_def
        write_and_clear_changes_def changeset56_length changeset56_drop)
  have lp: "chunks_loop flint (replica 0) None [CHR 0x00, CHR 0x06] ?v =
      (Inr ([CHR 0x00, CHR 0x06], [CHR 0x06]), ?v)"
    by (simp add: chunks_loop.simps chunks_body_def chunk_at_end_of_stream archive_faults_def)
  have f: "changeset_footer flint 6 [CHR 0x06] = Inr 6"
    by (simp add: changeset_footer_def flint_uint)
  have p: "pack_uint flint 6 = pack 6"
    by (simp add: flint_def)
  have 0: "apply_changeset_from_conn flint (replica 0) 5 True ?w = (Inr (pack 6), ?v)"
    by (simp add: apply_changeset_from_conn_loop st0 lp f p write_and_clear_changes_def)
  have cr: "create_changeset_file ''db'' ''changes5'' ?v =
      (Inl (DatabaseError ''Couldn't open changeset db/changes5 to write'' (EOTHER 5)), disk [])"
    by (simp add: create_changeset_file_def open_creat_trunc_def syscall_def next_fault_def
        archive_faults_def disk_def fun_eq_iff Let_def)
  have st1: "changeset_start flint (replica 1) 5 True ?w =
      (Inl (DatabaseError ''Couldn't open changeset db/changes5 to write'' (EOTHER 5)), disk [])"
    using cr by (simp add: changeset_start_def l g changeset56_header replica_def s)
  have 1: "apply_changeset_from_conn flint (replica 1) 5 True ?w =
      (Inl (DatabaseError ''Couldn't open changeset db/changes5 to write'' (EOTHER 5)), disk [])"
    by (simp add: apply_changeset_from_conn_loop st1)
  from 0 1 show ?thesis
    by (intro conjI)
qed

end
